theory Spec2Isabelle
  imports Complex_Main "HOL-Library.Char_ord" "HOL-Library.List_Lexorder"
begin

section \<open>The voter face-recognition API server (src/backend/server.js)\<close>

text \<open>
  The server keeps three collections in a Firebase Realtime Database: \<open>voters\<close>,
  \<open>registration_logs\<close> and \<open>authentication_logs\<close>. Every route handler is an
  \<open>async\<close> function that reads and writes these collections and calls the face
  recognition service over HTTP. The model passes the database explicitly and takes the
  behaviour of the collaborators (face service, database failures, clock, generated keys)
  from an environment record, one per request.
\<close>

subsection \<open>Data model\<close>

type_synonym encoding = "real list"

text \<open>
  The object stored under \<open>voters/voterId\<close> (\<open>voterData\<close>, lines 115-123); its
  field \<open>id\<close> is \<open>voter_id\<close> here. An encoding is the array of numbers that the face
  service returns.
\<close>

record voter =
  voter_id :: string
  name :: string
  email :: string
  registrationDate :: string
  faceEncoding :: encoding
  status :: string
  createdAt :: int

text \<open>The object pushed to \<open>registration_logs\<close> (lines 129-134).\<close>

record registration_log =
  reg_voterId :: string
  reg_voterName :: string
  reg_timestamp :: int
  action :: string

text \<open>
  The object pushed to \<open>authentication_logs\<close> (lines 199-206); \<open>voterId\<close> and
  \<open>voterName\<close> are \<open>null\<close> when \<open>bestMatch\<close> is \<open>null\<close>.
\<close>

record authentication_log =
  timestamp :: int
  voterId :: "string option"
  voterName :: "string option"
  result :: string
  confidence :: real
  ipAddress :: string

text \<open>
  A collection is the list of its children \<open>(key, value)\<close> in the order in which
  \<open>snapshot.val()\<close> followed by \<open>Object.entries\<close> enumerates them, which is the
  order of the keys.
\<close>

record db =
  voters :: "(string \<times> voter) list"
  registration_logs :: "(string \<times> registration_log) list"
  authentication_logs :: "(string \<times> authentication_log) list"

text \<open>
  \<open>ref(path/key).set(value)\<close> and \<open>ref(path).push(value)\<close> with the generated key:
  the child replaces any child of the same key and sits at the key's place. The generated
  keys (UUIDs and push ids) are ordered as strings.
\<close>

definition db_set :: "string \<Rightarrow> 'v \<Rightarrow> (string \<times> 'v) list \<Rightarrow> (string \<times> 'v) list" where
  "db_set k v kvs = insort_key fst (k, v) (filter (\<lambda>kv. fst kv \<noteq> k) kvs)"

subsection \<open>Collaborators\<close>

text \<open>An exception caught by a handler; the handlers only look at \<open>error.code\<close>.\<close>

datatype js_error = JsError (code: "string option")

text \<open>The bodies of the face service's answers that the handlers read.\<close>

record extract_response =
  extract_success :: bool
  extract_faceEncoding :: encoding
  extract_error :: string

record compare_response =
  compare_success :: bool
  compare_confidence :: real

text \<open>
  The environment of one request. \<open>axios.post\<close> either throws or yields a response body
  (\<open>extract_features\<close>, \<open>compare_faces\<close>); an awaited database operation either
  rejects or succeeds (\<open>once_error\<close> for the reads, \<open>set_error\<close> and \<open>push_error\<close>
  for the writes, which leave the database unchanged when they reject). \<open>uuidv4\<close> and
  \<open>push_key\<close> are the keys generated for this request, \<open>server_timestamp\<close> is the value
  the database puts in place of \<open>ServerValue.TIMESTAMP\<close>, \<open>now_iso\<close> is
  \<open>new Date().toISOString()\<close> and \<open>todayTimestamp\<close> is the local midnight that
  \<open>setHours(0, 0, 0, 0)\<close> computes.
\<close>

record env =
  email_valid :: "string \<Rightarrow> bool"
  extract_features :: "string \<Rightarrow> js_error + extract_response"
  compare_faces :: "encoding \<Rightarrow> encoding \<Rightarrow> js_error + compare_response"
  once_error :: "js_error option"
  set_error :: "js_error option"
  push_error :: "js_error option"
  uuidv4 :: string
  push_key :: string
  server_timestamp :: int
  now_iso :: string
  todayTimestamp :: int
  toISOString :: "int \<Rightarrow> string"
  ip :: string

subsection \<open>Requests and responses\<close>

text \<open>
  A request body is given by the keys its schema knows; each is absent or a string. A
  response is the status and the JSON body that the handler sends.
\<close>

record registration_request =
  req_name :: "string option"
  req_email :: "string option"
  req_faceData :: "string option"

record registration_value =
  val_name :: string
  val_email :: string
  val_faceData :: string

record authentication_request =
  auth_faceData :: "string option"

datatype bad_request =
    ValidationError string
  | FaceDetectionFailed string

record voter_view =
  view_id :: string
  view_name :: string
  view_email :: string

record stats =
  totalRegistered :: nat
  activeVoters :: nat
  successfulAuthsToday :: nat
  systemAccuracy :: real

record log_entry =
  entry_id :: string
  entry_log :: authentication_log
  entry_timestamp :: string

datatype response =
    BadRequest bad_request
  | EmailAlreadyRegistered
  | VoterRegistered string
  | AuthenticationSuccessful voter_view real
  | AuthenticationFailed real
  | ServiceUnavailable
  | InternalServerError
  | StatsOk stats
  | StatsFailed
  | LogsOk "log_entry list"
  | LogsFailed

fun http_status :: "response \<Rightarrow> nat" where
  "http_status (BadRequest _) = 400"
| "http_status EmailAlreadyRegistered = 409"
| "http_status (VoterRegistered _) = 201"
| "http_status (AuthenticationSuccessful _ _) = 200"
| "http_status (AuthenticationFailed _) = 401"
| "http_status ServiceUnavailable = 503"
| "http_status InternalServerError = 500"
| "http_status (StatsOk _) = 200"
| "http_status StatsFailed = 500"
| "http_status (LogsOk _) = 200"
| "http_status LogsFailed = 500"

text \<open>The \<open>catch\<close> block shared by \<open>/api/register\<close> and \<open>/api/authenticate\<close>.\<close>

definition catch_error :: "js_error \<Rightarrow> response" where
  "catch_error err =
     (if code err = Some ''ECONNREFUSED'' then ServiceUnavailable else InternalServerError)"

subsection \<open>Validation schemas\<close>

text \<open>
  \<open>Joi.string().required()\<close> rejects a missing key and the empty string;
  \<open>min(2).max(100)\<close> bounds the length; the grammar of \<open>email()\<close> is the
  environment's \<open>email_valid\<close>. Keys are checked in schema order and the first
  error is reported.
\<close>

definition voterRegistrationSchema ::
  "env \<Rightarrow> registration_request \<Rightarrow> bad_request + registration_value" where
  "voterRegistrationSchema e req =
     (case req_name req of
        None \<Rightarrow> Inl (ValidationError ''name'')
      | Some n \<Rightarrow>
          if length n < 2 \<or> 100 < length n then Inl (ValidationError ''name'')
          else (case req_email req of
             None \<Rightarrow> Inl (ValidationError ''email'')
           | Some m \<Rightarrow>
               if m = [] \<or> \<not> email_valid e m then Inl (ValidationError ''email'')
               else (case req_faceData req of
                  None \<Rightarrow> Inl (ValidationError ''faceData'')
                | Some f \<Rightarrow>
                    if f = [] then Inl (ValidationError ''faceData'')
                    else Inr \<lparr>val_name = n, val_email = m, val_faceData = f\<rparr>)))"

definition authenticationSchema :: "authentication_request \<Rightarrow> bad_request + string" where
  "authenticationSchema req =
     (case auth_faceData req of
        None \<Rightarrow> Inl (ValidationError ''faceData'')
      | Some f \<Rightarrow> if f = [] then Inl (ValidationError ''faceData'') else Inr f)"

subsection \<open>POST /api/register\<close>

text \<open>
  The handler runs in four pieces, each ending at an \<open>await\<close>: the e-mail lookup
  (lines 90-101), the feature extraction (104-123), the write of the voter (126) and the
  write of the registration log (129-140). Another request can run between two pieces.
\<close>

definition register_lookup ::
  "env \<Rightarrow> registration_request \<Rightarrow> db \<Rightarrow> response + registration_value" where
  "register_lookup e req d =
     (case voterRegistrationSchema e req of
        Inl err \<Rightarrow> Inl (BadRequest err)
      | Inr v \<Rightarrow>
          (case once_error e of
             Some err \<Rightarrow> Inl (catch_error err)
           | None \<Rightarrow>
               if filter (\<lambda>kv. email (snd kv) = val_email v) (voters d) \<noteq> []
               then Inl EmailAlreadyRegistered
               else Inr v))"

definition register_extract :: "env \<Rightarrow> registration_value \<Rightarrow> response + voter" where
  "register_extract e v =
     (case extract_features e (val_faceData v) of
        Inl err \<Rightarrow> Inl (catch_error err)
      | Inr faceResponse \<Rightarrow>
          if \<not> extract_success faceResponse
          then Inl (BadRequest (FaceDetectionFailed (extract_error faceResponse)))
          else Inr \<lparr>voter_id = uuidv4 e, name = val_name v, email = val_email v,
                    registrationDate = now_iso e,
                    faceEncoding = extract_faceEncoding faceResponse,
                    status = ''active'', createdAt = server_timestamp e\<rparr>)"

definition register_save :: "env \<Rightarrow> voter \<Rightarrow> db \<Rightarrow> response + db" where
  "register_save e voterData d =
     (case set_error e of
        Some err \<Rightarrow> Inl (catch_error err)
      | None \<Rightarrow> Inr (d\<lparr>voters := db_set (voter_id voterData) voterData (voters d)\<rparr>))"

definition register_log :: "env \<Rightarrow> voter \<Rightarrow> db \<Rightarrow> response \<times> db" where
  "register_log e voterData d =
     (case push_error e of
        Some err \<Rightarrow> (catch_error err, d)
      | None \<Rightarrow>
          (VoterRegistered (voter_id voterData),
           d\<lparr>registration_logs :=
                db_set (push_key e)
                  \<lparr>reg_voterId = voter_id voterData, reg_voterName = name voterData,
                   reg_timestamp = server_timestamp e, action = ''registered''\<rparr>
                  (registration_logs d)\<rparr>))"

text \<open>One request served without interruption: the four pieces in sequence.\<close>

definition register :: "env \<Rightarrow> registration_request \<Rightarrow> db \<Rightarrow> response \<times> db" where
  "register e req d =
     (case register_lookup e req d of
        Inl r \<Rightarrow> (r, d)
      | Inr v \<Rightarrow>
          (case register_extract e v of
             Inl r \<Rightarrow> (r, d)
           | Inr voterData \<Rightarrow>
               (case register_save e voterData d of
                  Inl r \<Rightarrow> (r, d)
                | Inr d1 \<Rightarrow> register_log e voterData d1)))"

text \<open>
  Two registrations in flight. A handler that has reached an \<open>await\<close> is a task
  waiting at that point; the event loop resumes one waiting task at a time and runs it to
  its next \<open>await\<close> or to its response. A schedule lists which of the two requests is
  resumed next (\<open>True\<close> for the first).
\<close>

datatype register_task =
    AtLookup registration_request
  | AtExtract registration_value
  | AtSave voter
  | AtLog voter
  | Responded response

fun register_step :: "env \<Rightarrow> register_task \<Rightarrow> db \<Rightarrow> register_task \<times> db" where
  "register_step e (AtLookup req) d =
     (case register_lookup e req d of
        Inl r \<Rightarrow> (Responded r, d) | Inr v \<Rightarrow> (AtExtract v, d))"
| "register_step e (AtExtract v) d =
     (case register_extract e v of
        Inl r \<Rightarrow> (Responded r, d) | Inr voterData \<Rightarrow> (AtSave voterData, d))"
| "register_step e (AtSave voterData) d =
     (case register_save e voterData d of
        Inl r \<Rightarrow> (Responded r, d) | Inr d1 \<Rightarrow> (AtLog voterData, d1))"
| "register_step e (AtLog voterData) d =
     (case register_log e voterData d of (r, d1) \<Rightarrow> (Responded r, d1))"
| "register_step e (Responded r) d = (Responded r, d)"

fun interleave ::
  "env \<Rightarrow> env \<Rightarrow> bool list \<Rightarrow> register_task \<times> register_task \<times> db \<Rightarrow>
   register_task \<times> register_task \<times> db" where
  "interleave e1 e2 [] s = s"
| "interleave e1 e2 (first # schedule) (t1, t2, d) =
     (if first
      then (case register_step e1 t1 d of (t1', d') \<Rightarrow> interleave e1 e2 schedule (t1', t2, d'))
      else (case register_step e2 t2 d of (t2', d') \<Rightarrow> interleave e1 e2 schedule (t1, t2', d')))"

subsection \<open>POST /api/authenticate\<close>

text \<open>
  A confidence is the number that the JSON answer denotes; the comparisons of the handler
  are comparisons of these numbers.
\<close>

definition CONFIDENCE_THRESHOLD :: real where
  "CONFIDENCE_THRESHOLD = 85 / 100"

text \<open>
  The loop of lines 182-194 over \<open>Object.entries(voters)\<close>, with \<open>bestMatch\<close> and
  \<open>bestConfidence\<close> as accumulators. The last argument records, in order, the keys of
  the voters for which \<open>/compare-faces\<close> was posted. A throwing \<open>axios.post\<close> leaves
  the loop. The spread \<open>{ id: voterId, ...voter }\<close> takes \<open>id\<close> from the voter object.
\<close>

fun compare_loop ::
  "(encoding \<Rightarrow> encoding \<Rightarrow> js_error + compare_response) \<Rightarrow> encoding \<Rightarrow>
   (string \<times> voter) list \<Rightarrow> voter option \<Rightarrow> real \<Rightarrow> string list \<Rightarrow>
   string list \<times> (js_error + voter option \<times> real)" where
  "compare_loop cmp probe [] bestMatch bestConfidence posted =
     (posted, Inr (bestMatch, bestConfidence))"
| "compare_loop cmp probe ((key, v) # rest) bestMatch bestConfidence posted =
     (if status v \<noteq> ''active'' then compare_loop cmp probe rest bestMatch bestConfidence posted
      else (case cmp probe (faceEncoding v) of
          Inl err \<Rightarrow> (posted @ [key], Inl err)
        | Inr compareResponse \<Rightarrow>
            if compare_success compareResponse
               \<and> compare_confidence compareResponse > bestConfidence
            then compare_loop cmp probe rest (Some v) (compare_confidence compareResponse)
                   (posted @ [key])
            else compare_loop cmp probe rest bestMatch bestConfidence (posted @ [key])))"

record auth_outcome =
  auth_response :: response
  auth_db :: db
  compare_posts :: "string list"

definition authenticate :: "env \<Rightarrow> authentication_request \<Rightarrow> db \<Rightarrow> auth_outcome" where
  "authenticate e req d =
     (case authenticationSchema req of
        Inl err \<Rightarrow> \<lparr>auth_response = BadRequest err, auth_db = d, compare_posts = []\<rparr>
      | Inr faceData \<Rightarrow>
     (case extract_features e faceData of
        Inl err \<Rightarrow> \<lparr>auth_response = catch_error err, auth_db = d, compare_posts = []\<rparr>
      | Inr faceResponse \<Rightarrow>
     if \<not> extract_success faceResponse
     then \<lparr>auth_response = BadRequest (FaceDetectionFailed (extract_error faceResponse)),
           auth_db = d, compare_posts = []\<rparr>
     else
     (case once_error e of
        Some err \<Rightarrow> \<lparr>auth_response = catch_error err, auth_db = d, compare_posts = []\<rparr>
      | None \<Rightarrow>
     (case compare_loop (compare_faces e) (extract_faceEncoding faceResponse) (voters d)
             None 0 [] of
        (posted, Inl err) \<Rightarrow>
          \<lparr>auth_response = catch_error err, auth_db = d, compare_posts = posted\<rparr>
      | (posted, Inr (bestMatch, bestConfidence)) \<Rightarrow>
     (let authResult = (bestConfidence \<ge> CONFIDENCE_THRESHOLD) in
     (case push_error e of
        Some err \<Rightarrow> \<lparr>auth_response = catch_error err, auth_db = d, compare_posts = posted\<rparr>
      | None \<Rightarrow>
     (let d1 = d\<lparr>authentication_logs :=
                  db_set (push_key e)
                    \<lparr>timestamp = server_timestamp e,
                     voterId = map_option voter_id bestMatch,
                     voterName = map_option name bestMatch,
                     result = (if authResult then ''success'' else ''failed''),
                     confidence = bestConfidence,
                     ipAddress = ip e\<rparr>
                    (authentication_logs d)\<rparr>
      in if authResult
         then (case bestMatch of
             None \<Rightarrow>
               \<lparr>auth_response = InternalServerError, auth_db = d1, compare_posts = posted\<rparr>
           | Some m \<Rightarrow>
               \<lparr>auth_response =
                   AuthenticationSuccessful
                     \<lparr>view_id = voter_id m, view_name = name m, view_email = email m\<rparr>
                     bestConfidence,
                 auth_db = d1, compare_posts = posted\<rparr>)
         else \<lparr>auth_response = AuthenticationFailed bestConfidence,
                auth_db = d1, compare_posts = posted\<rparr>)))))))"

subsection \<open>GET /api/dashboard/stats and /api/dashboard/logs\<close>

text \<open>\<open>limitToLast(n)\<close> on a collection in key order keeps its last \<open>n\<close> children.\<close>

definition limitToLast :: "nat \<Rightarrow> 'a list \<Rightarrow> 'a list" where
  "limitToLast n xs = drop (length xs - n) xs"

text \<open>
  The field \<open>systemAccuracy\<close> holds the percentage before \<open>toFixed(1)\<close> renders it and
  the \<open>%\<close> sign is appended.
\<close>

definition dashboard_stats :: "env \<Rightarrow> db \<Rightarrow> response" where
  "dashboard_stats e d =
     (case once_error e of
        Some err \<Rightarrow> StatsFailed
      | None \<Rightarrow>
          (let authLogs = map snd (limitToLast 100 (authentication_logs d));
               todayAuths = filter (\<lambda>log. timestamp log > todayTimestamp e
                                          \<and> result log = ''success'') authLogs;
               totalAttempts = length authLogs;
               successfulAttempts = length (filter (\<lambda>log. result log = ''success'') authLogs)
           in StatsOk
                \<lparr>totalRegistered = length (voters d),
                 activeVoters = length (filter (\<lambda>v. status v = ''active'') (map snd (voters d))),
                 successfulAuthsToday = length todayAuths,
                 systemAccuracy =
                   (if totalAttempts > 0
                    then real successfulAttempts / real totalAttempts * 100 else 0)\<rparr>))"

text \<open>
  \<open>orderByChild('timestamp').limitToLast(limit)\<close> selects the last \<open>limit\<close> children in
  the order of their timestamps, children of equal timestamp in key order (the stable
  sort of the key-ordered collection). \<open>val()\<close> exports the selected children as an
  object whose properties are in key order, and \<open>Object.entries\<close> follows it.
\<close>

definition orderByChild_timestamp_limitToLast ::
  "nat \<Rightarrow> (string \<times> authentication_log) list \<Rightarrow> (string \<times> authentication_log) list" where
  "orderByChild_timestamp_limitToLast n logs =
     (let selected = limitToLast n (sort_key (\<lambda>kv. timestamp (snd kv)) logs)
      in filter (\<lambda>kv. kv \<in> set selected) logs)"

text \<open>
  \<open>new Date(t).toISOString()\<close> throws a \<open>RangeError\<close> when \<open>t\<close> is outside the
  range of a JavaScript date; its rendering of a valid date is the environment's
  \<open>toISOString\<close>.
\<close>

definition valid_date :: "int \<Rightarrow> bool" where
  "valid_date t = (- 8640000000000000 \<le> t \<and> t \<le> 8640000000000000)"

text \<open>
  The argument \<open>parsed\<close> is the value of \<open>parseInt(req.query.limit)\<close>, \<open>None\<close> for
  \<open>NaN\<close>. \<open>limitToLast\<close> throws unless its argument is a positive integer. An entry
  keeps the whole log record next to its key and the rendered timestamp.
\<close>

definition dashboard_logs :: "env \<Rightarrow> int option \<Rightarrow> db \<Rightarrow> response" where
  "dashboard_logs e parsed d =
     (let limit = min (case parsed of None \<Rightarrow> 10 | Some n \<Rightarrow> if n = 0 then 10 else n) 50
      in if limit \<le> 0 then LogsFailed
         else (case once_error e of
             Some err \<Rightarrow> LogsFailed
           | None \<Rightarrow>
               (let logs = orderByChild_timestamp_limitToLast (nat limit)
                             (authentication_logs d)
                in if \<not> list_all (\<lambda>kv. valid_date (timestamp (snd kv))) logs then LogsFailed
                   else LogsOk (rev (map (\<lambda>(key, log).
                                            \<lparr>entry_id = key, entry_log = log,
                                             entry_timestamp = toISOString e (timestamp log)\<rparr>)
                                      logs)))))"

subsection \<open>Revocation\<close>

text \<open>
  Modelled from the spec: the server has no route that revokes a voter; the only trace of
  revocation in the source is the test \<open>voter.status !== 'active'\<close> of the comparison
  loop. The spec's Template Store has \<open>revoke(id) -> fails(NotFound)\<close>, which "marks a
  template inactive; it stops participating in future snapshots", and its status enum is
  \<open>{active, revoked}\<close>.
\<close>

datatype revoke_error = NotFound

definition revoke :: "string \<Rightarrow> db \<Rightarrow> revoke_error + db" where
  "revoke k d =
     (if k \<in> fst ` set (voters d)
      then Inr (d\<lparr>voters :=
                  map (\<lambda>kv. if fst kv = k then (fst kv, (snd kv)\<lparr>status := ''revoked''\<rparr>) else kv)
                    (voters d)\<rparr>)
      else Inl NotFound)"

text \<open>The calls that change the database, and a sequence of them run one after another.\<close>

datatype operation =
    Register env registration_request
  | Authenticate env authentication_request
  | Revoke string

fun apply_operation :: "operation \<Rightarrow> db \<Rightarrow> db" where
  "apply_operation (Register e req) d = snd (register e req d)"
| "apply_operation (Authenticate e req) d = auth_db (authenticate e req d)"
| "apply_operation (Revoke k) d = (case revoke k d of Inl err \<Rightarrow> d | Inr d1 \<Rightarrow> d1)"

definition run :: "operation list \<Rightarrow> db \<Rightarrow> db" where
  "run ops d = fold apply_operation ops d"

section \<open>Notions used to state the properties\<close>

text \<open>
  The snapshot of active templates is the part of the \<open>voters\<close> collection that the
  loop does not skip. The score of a voter is the confidence in the face service's answer
  for the probe and the voter's encoding; a comparison is usable when the request did not
  throw and the answer says \<open>success\<close>.
\<close>

definition active_templates :: "(string \<times> voter) list \<Rightarrow> (string \<times> voter) list" where
  "active_templates vs = filter (\<lambda>kv. status (snd kv) = ''active'') vs"

definition oracle_score ::
  "(encoding \<Rightarrow> encoding \<Rightarrow> js_error + compare_response) \<Rightarrow> encoding \<Rightarrow> voter \<Rightarrow> real" where
  "oracle_score cmp probe v =
     (case cmp probe (faceEncoding v) of Inl err \<Rightarrow> 0 | Inr r \<Rightarrow> compare_confidence r)"

definition oracle_ok ::
  "(encoding \<Rightarrow> encoding \<Rightarrow> js_error + compare_response) \<Rightarrow> encoding \<Rightarrow> voter \<Rightarrow> bool" where
  "oracle_ok cmp probe v =
     (case cmp probe (faceEncoding v) of Inl err \<Rightarrow> False | Inr r \<Rightarrow> compare_success r)"

definition oracle_throws ::
  "(encoding \<Rightarrow> encoding \<Rightarrow> js_error + compare_response) \<Rightarrow> encoding \<Rightarrow> voter \<Rightarrow> bool" where
  "oracle_throws cmp probe v =
     (case cmp probe (faceEncoding v) of Inl err \<Rightarrow> True | Inr r \<Rightarrow> False)"

definition usable_templates ::
  "(encoding \<Rightarrow> encoding \<Rightarrow> js_error + compare_response) \<Rightarrow> encoding \<Rightarrow>
   (string \<times> voter) list \<Rightarrow> (string \<times> voter) list" where
  "usable_templates cmp probe vs =
     filter (\<lambda>kv. oracle_ok cmp probe (snd kv)) (active_templates vs)"

text \<open>The record that lines 199-206 push for a result of the loop.\<close>

definition attempt_record :: "env \<Rightarrow> voter option \<Rightarrow> real \<Rightarrow> authentication_log" where
  "attempt_record e bm bc =
     \<lparr>timestamp = server_timestamp e, voterId = map_option voter_id bm,
      voterName = map_option name bm,
      result = (if bc \<ge> CONFIDENCE_THRESHOLD then ''success'' else ''failed''),
      confidence = bc, ipAddress = ip e\<rparr>"

text \<open>A key under which no active voter is stored.\<close>

definition never_active :: "string \<Rightarrow> (string \<times> voter) list \<Rightarrow> bool" where
  "never_active k vs = (k \<notin> fst ` set (active_templates vs))"

text \<open>
  The count that a "successes today" figure stands for: the attempts of the whole log with
  result \<open>success\<close> and a timestamp not before the start of the day.
\<close>

definition successes_since :: "int \<Rightarrow> (string \<times> authentication_log) list \<Rightarrow> nat" where
  "successes_since start logs =
     length (filter (\<lambda>kv. result (snd kv) = ''success'' \<and> timestamp (snd kv) \<ge> start) logs)"

subsection \<open>Concrete inputs\<close>

definition example_voter :: "string \<Rightarrow> string \<Rightarrow> encoding \<Rightarrow> string \<Rightarrow> voter" where
  "example_voter k m enc st =
     \<lparr>voter_id = k, name = k, email = m, registrationDate = ''2024-01-20T10:30:00.000Z'',
      faceEncoding = enc, status = st, createdAt = 1000\<rparr>"

definition example_compare :: "encoding \<Rightarrow> encoding \<Rightarrow> js_error + compare_response" where
  "example_compare probe enc =
     Inr \<lparr>compare_success = True,
          compare_confidence = (if enc = [1] \<or> enc = [2] then 92 / 100 else 40 / 100)\<rparr>"

definition example_env :: env where
  "example_env =
     \<lparr>email_valid = (\<lambda>m. True),
      extract_features = (\<lambda>img. Inr \<lparr>extract_success = True, extract_faceEncoding = [0],
                                       extract_error = []\<rparr>),
      compare_faces = example_compare,
      once_error = None, set_error = None, push_error = None,
      uuidv4 = ''d'', push_key = ''-N1'', server_timestamp = 2000,
      now_iso = ''2024-01-20T10:30:00.000Z'', todayTimestamp = 1500,
      toISOString = (\<lambda>t. []), ip = ''::1''\<rparr>"

definition example_db :: db where
  "example_db =
     \<lparr>voters = [(''a'', example_voter ''a'' ''a@x.org'' [1] ''active''),
                (''b'', example_voter ''b'' ''b@x.org'' [2] ''active''),
                (''c'', example_voter ''c'' ''c@x.org'' [3] ''active'')],
      registration_logs = [], authentication_logs = []\<rparr>"

definition example_probe :: authentication_request where
  "example_probe = \<lparr>auth_faceData = Some ''image''\<rparr>"

definition revoked_db :: db where
  "revoked_db =
     \<lparr>voters = [(''a'', example_voter ''a'' ''a@x.org'' [1] ''revoked'')],
      registration_logs = [], authentication_logs = []\<rparr>"

definition low_compare :: "encoding \<Rightarrow> encoding \<Rightarrow> js_error + compare_response" where
  "low_compare probe enc =
     Inr \<lparr>compare_success = True,
          compare_confidence = (if enc = [1] then 70 / 100 else 40 / 100)\<rparr>"

definition low_env :: env where
  "low_env = example_env\<lparr>compare_faces := low_compare\<rparr>"

definition throwing_compare :: "encoding \<Rightarrow> encoding \<Rightarrow> js_error + compare_response" where
  "throwing_compare probe enc =
     (if enc = [2] then Inl (JsError (Some ''ECONNREFUSED'')) else example_compare probe enc)"

definition throwing_env :: env where
  "throwing_env = example_env\<lparr>compare_faces := throwing_compare\<rparr>"

definition unsuccessful_compare :: "encoding \<Rightarrow> encoding \<Rightarrow> js_error + compare_response" where
  "unsuccessful_compare probe enc =
     Inr \<lparr>compare_success = False, compare_confidence = 90 / 100\<rparr>"

definition unsuccessful_env :: env where
  "unsuccessful_env = example_env\<lparr>compare_faces := unsuccessful_compare\<rparr>"

definition partial_compare :: "encoding \<Rightarrow> encoding \<Rightarrow> js_error + compare_response" where
  "partial_compare probe enc =
     (if enc = [1] then Inr \<lparr>compare_success = False, compare_confidence = 99 / 100\<rparr>
      else example_compare probe enc)"

definition partial_env :: env where
  "partial_env = example_env\<lparr>compare_faces := partial_compare\<rparr>"

definition example_registration :: registration_request where
  "example_registration =
     \<lparr>req_name = Some ''Dana'', req_email = Some ''d@x.org'', req_faceData = Some ''image''\<rparr>"

definition empty_db :: db where
  "empty_db = \<lparr>voters = [], registration_logs = [], authentication_logs = []\<rparr>"

definition push_failing_env :: env where
  "push_failing_env = example_env\<lparr>push_error := Some (JsError None)\<rparr>"

definition revoked_registration :: registration_request where
  "revoked_registration =
     \<lparr>req_name = Some ''Alex'', req_email = Some ''a@x.org'', req_faceData = Some ''image''\<rparr>"

definition second_env :: env where
  "second_env = example_env\<lparr>uuidv4 := ''e'', push_key := ''-N2''\<rparr>"

definition example_revoked :: db where
  "example_revoked =
     \<lparr>voters = [(''a'', example_voter ''a'' ''a@x.org'' [1] ''revoked''),
                (''b'', example_voter ''b'' ''b@x.org'' [2] ''active''),
                (''c'', example_voter ''c'' ''c@x.org'' [3] ''active'')],
      registration_logs = [], authentication_logs = []\<rparr>"

definition success_log :: "int \<Rightarrow> authentication_log" where
  "success_log t =
     \<lparr>timestamp = t, voterId = Some ''a'', voterName = Some ''a'', result = ''success'',
      confidence = 92 / 100, ipAddress = ''::1''\<rparr>"

definition busy_db :: db where
  "busy_db =
     \<lparr>voters = [], registration_logs = [],
      authentication_logs = map (\<lambda>i. (replicate i CHR ''k'', success_log 2000)) [1..<102]\<rparr>"

definition midnight_db :: db where
  "midnight_db =
     \<lparr>voters = [], registration_logs = [],
      authentication_logs = [(''-N0'', success_log 1500)]\<rparr>"

definition unordered_db :: db where
  "unordered_db =
     \<lparr>voters = [], registration_logs = [],
      authentication_logs = [(''-N0'', success_log 3000), (''-N1'', success_log 2000)]\<rparr>"

section \<open>Unfolding the concrete inputs\<close>

lemmas example_defs = example_env_def example_db_def example_probe_def example_voter_def
  example_compare_def active_templates_def oracle_ok_def oracle_score_def

lemmas failure_defs = throwing_compare_def throwing_env_def unsuccessful_compare_def
  unsuccessful_env_def partial_compare_def partial_env_def oracle_throws_def
  usable_templates_def attempt_record_def

lemmas register_defs = register_def register_lookup_def register_extract_def
  register_save_def register_log_def voterRegistrationSchema_def catch_error_def

section \<open>The comparison loop\<close>

lemma compare_loop_no_active:
  "active_templates vs = [] \<Longrightarrow> compare_loop cmp probe vs bm bc posted = (posted, Inr (bm, bc))"
  by (induction vs arbitrary: bm bc posted) (auto simp: active_templates_def split: if_splits)

lemma compare_loop_all_ok:
  assumes "\<forall>kv \<in> set (active_templates vs). oracle_ok cmp probe (snd kv)"
  shows "compare_loop cmp probe vs bm bc posted =
     (posted @ map fst (active_templates vs),
      Inr (let m = Max (insert bc (oracle_score cmp probe ` snd ` set (active_templates vs)))
           in (if bc < m
               then map_option snd (find (\<lambda>kv. oracle_score cmp probe (snd kv) = m) (active_templates vs))
               else bm, m)))"
  using assms
proof (induction vs arbitrary: bm bc posted)
  case Nil
  then show ?case by (simp add: active_templates_def)
next
  case (Cons kv vs)
  obtain k v where kv: "kv = (k, v)" by (cases kv)
  let ?S = "oracle_score cmp probe ` snd ` set (active_templates vs)"
  have fin: "finite ?S" by simp
  have ih: "\<And>bm bc posted. compare_loop cmp probe vs bm bc posted =
     (posted @ map fst (active_templates vs),
      Inr (let m = Max (insert bc ?S)
           in (if bc < m
               then map_option snd (find (\<lambda>kv. oracle_score cmp probe (snd kv) = m) (active_templates vs))
               else bm, m)))"
    using Cons by (simp add: active_templates_def)
  show ?case
  proof (cases "status v = ''active''")
    case False
    then show ?thesis using ih kv by (simp add: active_templates_def)
  next
    case True
    then have act: "active_templates (kv # vs) = (k, v) # active_templates vs"
      by (simp add: active_templates_def kv)
    from Cons.prems act have ok: "oracle_ok cmp probe v" by simp
    then obtain r where r: "cmp probe (faceEncoding v) = Inr r" "compare_success r"
      by (auto simp: oracle_ok_def split: sum.splits)
    then have sc: "oracle_score cmp probe v = compare_confidence r"
      by (simp add: oracle_score_def)
    let ?s = "compare_confidence r"
    have mx: "Max (insert bc (insert ?s ?S)) = max bc (Max (insert ?s ?S))"
      using fin by simp
    have mx2: "Max (insert ?s ?S) = (if ?S = {} then ?s else max ?s (Max ?S))"
      using fin by simp
    have mx3: "Max (insert bc ?S) = (if ?S = {} then bc else max bc (Max ?S))"
      using fin by simp
    show ?thesis
    proof (cases "?s > bc")
      case True
      then show ?thesis using r True \<open>status v = ''active''\<close> kv act sc ih mx2 mx3
        by (auto simp: Let_def max_def)
    next
      case False
      then show ?thesis using r \<open>status v = ''active''\<close> kv act sc ih mx2 mx3
        by (auto simp: Let_def max_def)
    qed
  qed
qed

lemma compare_loop_no_throw:
  assumes "\<forall>kv \<in> set (active_templates vs). \<not> oracle_throws cmp probe (snd kv)"
  shows "compare_loop cmp probe vs bm bc posted =
     (posted @ map fst (active_templates vs),
      Inr (let m = Max (insert bc (oracle_score cmp probe ` snd ` set (usable_templates cmp probe vs)))
           in (if bc < m
               then map_option snd (find (\<lambda>kv. oracle_score cmp probe (snd kv) = m)
                                      (usable_templates cmp probe vs))
               else bm, m)))"
  using assms
proof (induction vs arbitrary: bm bc posted)
  case Nil
  then show ?case by (simp add: active_templates_def usable_templates_def)
next
  case (Cons kv vs)
  obtain k v where kv: "kv = (k, v)" by (cases kv)
  let ?U = "usable_templates cmp probe vs"
  let ?S = "oracle_score cmp probe ` snd ` set ?U"
  have fin: "finite ?S" by simp
  have ih: "\<And>bm bc posted. compare_loop cmp probe vs bm bc posted =
     (posted @ map fst (active_templates vs),
      Inr (let m = Max (insert bc ?S)
           in (if bc < m
               then map_option snd (find (\<lambda>kv. oracle_score cmp probe (snd kv) = m) ?U)
               else bm, m)))"
    using Cons by (simp add: active_templates_def)
  show ?case
  proof (cases "status v = ''active''")
    case False
    then show ?thesis using ih kv by (simp add: active_templates_def usable_templates_def)
  next
    case True
    then have act: "active_templates ((k, v) # vs) = (k, v) # active_templates vs"
      by (simp add: active_templates_def)
    from Cons.prems act kv have "\<not> oracle_throws cmp probe v" by simp
    then obtain r where r: "cmp probe (faceEncoding v) = Inr r"
      by (auto simp: oracle_throws_def split: sum.splits)
    then have sc: "oracle_score cmp probe v = compare_confidence r"
      and ok: "oracle_ok cmp probe v = compare_success r"
      by (simp_all add: oracle_score_def oracle_ok_def)
    let ?s = "compare_confidence r"
    have mx2: "Max (insert ?s ?S) = (if ?S = {} then ?s else max ?s (Max ?S))"
      using fin by simp
    have mx3: "Max (insert bc ?S) = (if ?S = {} then bc else max bc (Max ?S))"
      using fin by simp
    have mx4: "Max (insert bc (insert ?s ?S)) = max bc (Max (insert ?s ?S))"
      using fin by simp
    show ?thesis
    proof (cases "compare_success r")
      case False
      then have us: "usable_templates cmp probe ((k, v) # vs) = ?U"
        using act ok by (simp add: usable_templates_def)
      show ?thesis unfolding kv us act using r False True ih by (simp add: Let_def)
    next
      case succ: True
      then have us: "usable_templates cmp probe ((k, v) # vs) = (k, v) # ?U"
        using act ok by (simp add: usable_templates_def)
      show ?thesis
      proof (cases "?s > bc")
        case True
        then show ?thesis unfolding kv us act
          using r succ \<open>status v = ''active''\<close> sc ih mx2 mx3 mx4
          by (auto simp: Let_def max_def)
      next
        case False
        then show ?thesis unfolding kv us act
          using r succ \<open>status v = ''active''\<close> sc ih mx2 mx3 mx4
          by (auto simp: Let_def max_def)
      qed
    qed
  qed
qed

lemma oracle_ok_not_throws: "oracle_ok cmp probe v \<Longrightarrow> \<not> oracle_throws cmp probe v"
  by (auto simp: oracle_ok_def oracle_throws_def split: sum.splits)

lemma compare_loop_throw:
  assumes "\<forall>kv \<in> set (active_templates pre). \<not> oracle_throws cmp probe (snd kv)"
    and "status v = ''active''" and "cmp probe (faceEncoding v) = Inl err"
  shows "compare_loop cmp probe (pre @ (k, v) # post) bm bc posted =
     (posted @ map fst (active_templates pre) @ [k], Inl err)"
  using assms
proof (induction pre arbitrary: bm bc posted)
  case Nil
  then show ?case by (simp add: active_templates_def)
next
  case (Cons kv pre)
  obtain k' v' where kv: "kv = (k', v')" by (cases kv)
  show ?case
  proof (cases "status v' = ''active''")
    case False
    then show ?thesis using Cons kv by (simp add: active_templates_def)
  next
    case True
    then have "\<not> oracle_throws cmp probe v'" using Cons.prems(1) kv
      by (simp add: active_templates_def)
    then obtain r where r: "cmp probe (faceEncoding v') = Inr r"
      by (auto simp: oracle_throws_def split: sum.splits)
    have ih: "\<And>bm bc posted. compare_loop cmp probe (pre @ (k, v) # post) bm bc posted =
       (posted @ map fst (active_templates pre) @ [k], Inl err)"
      using Cons by (simp add: active_templates_def)
    show ?thesis using True r kv ih by (simp add: active_templates_def)
  qed
qed

lemma compare_loop_invariant:
  "compare_loop cmp probe vs bm bc posted = (p, Inr (bm', bc')) \<Longrightarrow>
   0 \<le> bc \<Longrightarrow> (bm \<noteq> None \<longleftrightarrow> 0 < bc) \<Longrightarrow>
   0 \<le> bc' \<and> (bm' \<noteq> None \<longleftrightarrow> 0 < bc')"
proof (induction cmp probe vs bm bc posted rule: compare_loop.induct)
  case (1 cmp probe bestMatch bestConfidence posted)
  then show ?case by simp
next
  case (2 cmp probe key v rest bestMatch bestConfidence posted)
  show ?case
  proof (cases "status v = ''active''")
    case False
    then show ?thesis using 2 by simp
  next
    case True
    show ?thesis
    proof (cases "cmp probe (faceEncoding v)")
      case (Inl err)
      then show ?thesis using 2 True by simp
    next
      case (Inr r)
      show ?thesis
      proof (cases "compare_success r \<and> compare_confidence r > bestConfidence")
        case t: True
        have "0 \<le> compare_confidence r" "(Some v \<noteq> None) = (0 < compare_confidence r)"
          using t "2.prems" by auto
        with "2.IH"(2) [OF _ Inr t] True "2.prems"(1) Inr t show ?thesis by simp
      next
        case f: False
        with "2.IH"(3) [OF _ Inr f] True "2.prems" Inr show ?thesis by simp
      qed
    qed
  qed
qed

lemma set_db_set: "set (db_set k v kvs) = insert (k, v) {kv \<in> set kvs. fst kv \<noteq> k}"
  by (auto simp: db_set_def set_insort_key)

lemma compare_loop_Inr_no_throw:
  assumes "compare_loop cmp probe vs bm bc posted = (p, Inr res)"
  shows "\<forall>kv \<in> set (active_templates vs). \<not> oracle_throws cmp probe (snd kv)"
proof (rule ccontr)
  assume "\<not> ?thesis"
  then have "\<exists>kv \<in> set vs. status (snd kv) = ''active'' \<and> oracle_throws cmp probe (snd kv)"
    by (force simp: active_templates_def)
  then obtain pre kv post where split: "vs = pre @ kv # post"
    and hit: "status (snd kv) = ''active'' \<and> oracle_throws cmp probe (snd kv)"
    and first: "\<forall>y \<in> set pre. \<not> (status (snd y) = ''active'' \<and> oracle_throws cmp probe (snd y))"
    using split_list_first_prop [of vs "\<lambda>kv. status (snd kv) = ''active'' \<and> oracle_throws cmp probe (snd kv)"]
    by blast
  obtain k v where kv: "kv = (k, v)" by (cases kv)
  from hit kv obtain err where err: "cmp probe (faceEncoding v) = Inl err"
    by (auto simp: oracle_throws_def split: sum.splits)
  from first have pre: "\<forall>y \<in> set (active_templates pre). \<not> oracle_throws cmp probe (snd y)"
    by (auto simp: active_templates_def)
  from hit kv have act: "status v = ''active''" by simp
  from compare_loop_throw [OF pre act err, of k post bm bc posted] assms split kv
  show False by simp
qed

lemma authenticate_cases:
  obtains (rejected) "auth_db (authenticate e req d) = d"
  | (logged) faceData fr posted bm bc where
      "authenticationSchema req = Inr faceData" "extract_features e faceData = Inr fr"
      "extract_success fr" "once_error e = None" "push_error e = None"
      "compare_loop (compare_faces e) (extract_faceEncoding fr) (voters d) None 0 [] =
         (posted, Inr (bm, bc))"
      "auth_db (authenticate e req d) =
         d\<lparr>authentication_logs :=
              db_set (push_key e) (attempt_record e bm bc) (authentication_logs d)\<rparr>"
proof (cases "auth_db (authenticate e req d) = d")
  case True
  then show ?thesis by (rule rejected)
next
  case False
  then show ?thesis
    by (auto simp: authenticate_def Let_def attempt_record_def
        split: sum.splits option.splits if_splits prod.splits intro: logged)
qed

lemma authenticate_after_loop:
  assumes "authenticationSchema req = Inr faceData" "extract_features e faceData = Inr fr"
    "extract_success fr" "once_error e = None"
  shows "authenticate e req d =
     (case compare_loop (compare_faces e) (extract_faceEncoding fr) (voters d) None 0 [] of
        (posted, Inl err) \<Rightarrow>
          \<lparr>auth_response = catch_error err, auth_db = d, compare_posts = posted\<rparr>
      | (posted, Inr (bm, bc)) \<Rightarrow>
          (case push_error e of
             Some err \<Rightarrow> \<lparr>auth_response = catch_error err, auth_db = d, compare_posts = posted\<rparr>
           | None \<Rightarrow>
              \<lparr>auth_response =
                 (if CONFIDENCE_THRESHOLD \<le> bc
                  then (case bm of None \<Rightarrow> InternalServerError
                        | Some m \<Rightarrow> AuthenticationSuccessful
                            \<lparr>view_id = voter_id m, view_name = name m, view_email = email m\<rparr> bc)
                  else AuthenticationFailed bc),
               auth_db = d\<lparr>authentication_logs :=
                 db_set (push_key e) (attempt_record e bm bc) (authentication_logs d)\<rparr>,
               compare_posts = posted\<rparr>))"
  using assms
  by (simp add: authenticate_def Let_def attempt_record_def
      split: sum.splits option.splits prod.splits)

lemma active_usable [simp]:
  "active_templates (usable_templates cmp probe vs) = usable_templates cmp probe vs"
  by (simp add: usable_templates_def active_templates_def)
     (metis (mono_tags, lifting) filter_cong)

lemma usable_usable [simp]:
  "usable_templates cmp probe (usable_templates cmp probe vs) = usable_templates cmp probe vs"
  unfolding usable_templates_def [of cmp probe "usable_templates cmp probe vs"] active_usable
  by (simp add: usable_templates_def)

lemma usable_no_throw:
  "\<forall>kv \<in> set (usable_templates cmp probe vs). \<not> oracle_throws cmp probe (snd kv)"
  by (simp add: usable_templates_def oracle_ok_not_throws)

lemma voterRegistrationSchema_push_error [simp]:
  "voterRegistrationSchema (e\<lparr>push_error := x\<rparr>) req = voterRegistrationSchema e req"
  by (simp add: voterRegistrationSchema_def split: option.splits)

section \<open>Registration steps and revocation\<close>

lemma register_by_steps:
  "interleave e e [True, True, True, True] (AtLookup req, t2, d) =
     (Responded (fst (register e req d)), t2, snd (register e req d))"
  by (simp add: register_def split: sum.splits prod.splits)

lemma compare_loop_posts:
  "set (fst (compare_loop cmp probe vs bm bc posted))
     \<subseteq> set posted \<union> fst ` set (active_templates vs)"
proof (induction vs arbitrary: bm bc posted)
  case Nil
  then show ?case by simp
next
  case (Cons kv vs)
  obtain k v where kv: "kv = (k, v)" by (cases kv)
  have act: "status v = ''active'' \<Longrightarrow>
      active_templates ((k, v) # vs) = (k, v) # active_templates vs"
    and inact: "status v \<noteq> ''active'' \<Longrightarrow> active_templates ((k, v) # vs) = active_templates vs"
    by (simp_all add: active_templates_def)
  show ?case
  proof (cases "status v = ''active''")
    case False
    then show ?thesis unfolding kv using Cons.IH [of bm bc posted] by (simp add: inact)
  next
    case True
    show ?thesis
    proof (cases "cmp probe (faceEncoding v)")
      case (Inl err)
      then show ?thesis unfolding kv using True by (auto simp: act)
    next
      case (Inr r)
      show ?thesis unfolding kv
        using True Inr Cons.IH [of "Some v" "compare_confidence r" "posted @ [k]"]
          Cons.IH [of bm bc "posted @ [k]"]
        by (auto simp: act)
    qed
  qed
qed

lemma authenticate_posts:
  "set (compare_posts (authenticate e req d)) \<subseteq> fst ` set (active_templates (voters d))"
proof -
  have "compare_posts (authenticate e req d) = []
      \<or> (\<exists>probe. compare_posts (authenticate e req d) =
            fst (compare_loop (compare_faces e) probe (voters d) None 0 []))"
  proof (cases "authenticationSchema req")
    case (Inl err)
    then show ?thesis by (simp add: authenticate_def)
  next
    case valid: (Inr faceData)
    show ?thesis
    proof (cases "extract_features e faceData")
      case (Inl err)
      then show ?thesis using valid by (simp add: authenticate_def)
    next
      case (Inr fr)
      show ?thesis
      proof (cases "extract_success fr \<and> once_error e = None")
        case False
        then show ?thesis using valid Inr
          by (auto simp: authenticate_def split: option.splits)
      next
        case True
        then have "compare_posts (authenticate e req d) =
            fst (compare_loop (compare_faces e) (extract_faceEncoding fr) (voters d) None 0 [])"
          using authenticate_after_loop [OF valid Inr, of d]
          by (simp split: sum.splits option.splits prod.splits)
        then show ?thesis by blast
      qed
    qed
  qed
  moreover have "\<And>probe. set (fst (compare_loop (compare_faces e) probe (voters d) None 0 []))
      \<subseteq> fst ` set (active_templates (voters d))"
    using compare_loop_posts [of "compare_faces e" _ "voters d" None 0 "[]"] by simp
  ultimately show ?thesis by (elim disjE exE) simp_all
qed

lemma authenticate_voters [simp]: "voters (auth_db (authenticate e req d)) = voters d"
  by (auto simp: authenticate_def Let_def split: sum.splits option.splits prod.splits if_splits)

lemma never_active_db_set:
  "never_active k vs \<Longrightarrow> k' \<noteq> k \<Longrightarrow> never_active k (db_set k' v vs)"
  by (auto simp: never_active_def active_templates_def set_db_set)

lemma never_active_register:
  "never_active k (voters d) \<Longrightarrow> uuidv4 e \<noteq> k \<Longrightarrow>
   never_active k (voters (snd (register e req d)))"
  by (simp add: register_def register_lookup_def register_extract_def register_save_def
      register_log_def never_active_db_set split: sum.splits option.splits)

lemma never_active_revoke:
  "never_active k (voters d) \<Longrightarrow> revoke k' d = Inr d1 \<Longrightarrow> never_active k (voters d1)"
  by (force simp: never_active_def active_templates_def revoke_def image_iff split: if_splits)

lemma revoke_never_active: "revoke k d = Inr d1 \<Longrightarrow> never_active k (voters d1)"
  by (auto simp: never_active_def active_templates_def revoke_def split: if_splits)

lemma never_active_run:
  "never_active k (voters d) \<Longrightarrow>
   \<forall>op \<in> set ops. \<forall>e req. op = Register e req \<longrightarrow> uuidv4 e \<noteq> k \<Longrightarrow>
   never_active k (voters (run ops d))"
proof (induction ops arbitrary: d)
  case Nil
  then show ?case by (simp add: run_def)
next
  case (Cons op ops)
  have step: "never_active k (voters (apply_operation op d))"
  proof (cases op)
    case (Register e req)
    then have "uuidv4 e \<noteq> k" using Cons.prems(2) by simp
    then show ?thesis
      using never_active_register [OF Cons.prems(1)] Register by simp
  next
    case (Authenticate e req)
    then show ?thesis using Cons.prems(1) by simp
  next
    case (Revoke k')
    then show ?thesis using Cons.prems(1)
      by (auto split: sum.splits intro: never_active_revoke)
  qed
  have "run (op # ops) d = run ops (apply_operation op d)" by (simp add: run_def)
  then show ?case using Cons.IH [OF step] Cons.prems(2) by simp
qed

section \<open>Queries on the log\<close>

lemma constant_logs:
  "map snd (limitToLast n (map (\<lambda>i. (g i, x)) js)) = replicate (min n (length js)) x"
proof -
  have "length js - (length js - n) = min n (length js)" by arith
  then show ?thesis by (simp add: limitToLast_def drop_map o_def map_replicate_const)
qed

lemma filter_True_if_all: "\<forall>x \<in> set xs. P x \<Longrightarrow> filter P xs = xs"
  by (simp add: filter_id_conv)

lemma filter_in_drop:
  assumes "distinct xs"
  shows "filter (\<lambda>x. x \<in> set (drop k xs)) xs = drop k xs"
proof -
  let ?P = "\<lambda>x. x \<in> set (drop k xs)"
  from assms have "distinct (take k xs @ drop k xs)" by simp
  then have disj: "\<forall>x \<in> set (take k xs). x \<notin> set (drop k xs)"
    unfolding distinct_append by blast
  then have t: "filter ?P (take k xs) = []" by (simp add: filter_empty_conv)
  have d: "filter ?P (drop k xs) = drop k xs" by (simp add: filter_id_conv)
  have "filter ?P xs = filter ?P (take k xs @ drop k xs)" by (simp only: append_take_drop_id)
  also have "\<dots> = filter ?P (take k xs) @ filter ?P (drop k xs)" by (rule filter_append)
  finally show ?thesis by (simp only: t d append_Nil)
qed

lemma length_filter_in:
  assumes "distinct xs"
  shows "length (filter (\<lambda>x. x \<in> set ys) xs) \<le> length ys"
proof -
  let ?zs = "filter (\<lambda>x. x \<in> set ys) xs"
  from assms have "distinct ?zs" by simp
  then have "length ?zs = card (set ?zs)" by (metis distinct_card)
  also have "\<dots> \<le> card (set ys)" by (intro card_mono) auto
  also have "\<dots> \<le> length ys" by (rule card_length)
  finally show ?thesis .
qed

lemma length_selected:
  "distinct logs \<Longrightarrow> length (orderByChild_timestamp_limitToLast n logs) \<le> n"
proof -
  assume d: "distinct logs"
  have "length (orderByChild_timestamp_limitToLast n logs)
      \<le> length (limitToLast n (sort_key (\<lambda>kv. timestamp (snd kv)) logs))"
    unfolding orderByChild_timestamp_limitToLast_def Let_def by (rule length_filter_in [OF d])
  also have "\<dots> \<le> n" by (simp add: limitToLast_def)
  finally show ?thesis .
qed

lemma selected_sorted:
  assumes "distinct logs" and "sorted (map (\<lambda>kv. timestamp (snd kv)) logs)"
  shows "orderByChild_timestamp_limitToLast n logs = drop (length logs - n) logs"
  using assms
  by (simp add: orderByChild_timestamp_limitToLast_def limitToLast_def
      sort_key_id_if_sorted filter_in_drop)

text \<open>
  An authentication whose push key is above the keys of the log and whose server timestamp
  is not before its timestamps keeps the log's timestamps in key order.
\<close>

lemma insort_key_last: "\<forall>x \<in> set xs. f x < f y \<Longrightarrow> insort_key f y xs = xs @ [y]"
  by (induction xs) auto

lemma db_set_fresh_last: "\<forall>kv \<in> set kvs. fst kv < k \<Longrightarrow> db_set k v kvs = kvs @ [(k, v)]"
proof -
  assume a: "\<forall>kv \<in> set kvs. fst kv < k"
  then have "filter (\<lambda>kv. fst kv \<noteq> k) kvs = kvs" by (auto simp: filter_id_conv)
  then show ?thesis using a by (simp add: db_set_def insort_key_last)
qed

lemma authenticate_keeps_chronology:
  assumes "sorted (map (\<lambda>kv. timestamp (snd kv)) (authentication_logs d))"
    and "distinct (map fst (authentication_logs d))"
    and "\<forall>kv \<in> set (authentication_logs d).
           fst kv < push_key e \<and> timestamp (snd kv) \<le> server_timestamp e"
  shows "sorted (map (\<lambda>kv. timestamp (snd kv)) (authentication_logs (auth_db (authenticate e req d))))
     \<and> distinct (map fst (authentication_logs (auth_db (authenticate e req d))))"
proof (cases e req d rule: authenticate_cases)
  case rejected
  then show ?thesis using assms by simp
next
  case (logged faceData fr posted bm bc)
  have "authentication_logs (auth_db (authenticate e req d)) =
      authentication_logs d @ [(push_key e, attempt_record e bm bc)]"
    using logged(7) assms(3) by (simp add: db_set_fresh_last)
  then show ?thesis using assms
    by (auto simp: sorted_append attempt_record_def)
qed

text \<open>
  What holds of every list that \<open>/api/dashboard/logs\<close> returns: it has at most 50
  entries, and it is in descending order of timestamp when the timestamps of the stored log
  do not decrease along its keys.
\<close>

lemma dashboard_logs_bounded:
  assumes keys: "distinct (map fst (authentication_logs d))"
  shows "(\<forall>entries. dashboard_logs e parsed d = LogsOk entries \<longrightarrow>
            length entries \<le> 50
            \<and> (sorted (map (\<lambda>kv. timestamp (snd kv)) (authentication_logs d)) \<longrightarrow>
                 sorted_wrt (\<lambda>a b. timestamp (entry_log a) \<ge> timestamp (entry_log b)) entries))
     \<and> (once_error e = None \<and> (\<forall>n. parsed = Some n \<longrightarrow> 0 \<le> n)
          \<and> (\<forall>kv \<in> set (authentication_logs d). valid_date (timestamp (snd kv))) \<longrightarrow>
          (\<exists>entries. dashboard_logs e parsed d = LogsOk entries))"
proof (intro conjI allI impI)
  let ?limit = "min (case parsed of None \<Rightarrow> 10 | Some n \<Rightarrow> if n = 0 then 10 else n) (50 :: int)"
  let ?logs = "authentication_logs d"
  let ?render = "\<lambda>(key, log). \<lparr>entry_id = key, entry_log = log,
                                   entry_timestamp = toISOString e (timestamp log)\<rparr>"
  from keys have dist: "distinct ?logs" by (rule distinct_map [THEN iffD1, THEN conjunct1])
  {
    fix entries
    assume ok: "dashboard_logs e parsed d = LogsOk entries"
    then have pos: "0 < ?limit"
      and entries: "entries = rev (map ?render (orderByChild_timestamp_limitToLast (nat ?limit) ?logs))"
      by (auto simp: dashboard_logs_def Let_def split: if_splits option.splits)
    have "length entries \<le> nat ?limit"
      unfolding entries using length_selected [OF dist, of "nat ?limit"] by simp
    also have "\<dots> \<le> 50" by simp
    finally show "length entries \<le> 50" .
    assume srt: "sorted (map (\<lambda>kv. timestamp (snd kv)) ?logs)"
    let ?sel = "drop (length ?logs - nat ?limit) ?logs"
    have sel: "orderByChild_timestamp_limitToLast (nat ?limit) ?logs = ?sel"
      using selected_sorted [OF dist srt] .
    have "sorted (map (\<lambda>kv. timestamp (snd kv)) ?sel)"
      using srt by (simp add: sorted_wrt_drop drop_map [symmetric])
    then have "sorted_wrt (\<lambda>a b. timestamp (snd a) \<le> timestamp (snd b)) ?sel"
      by (simp add: sorted_wrt_map)
    then have "sorted_wrt (\<lambda>a b. timestamp (entry_log a) \<le> timestamp (entry_log b))
        (map ?render ?sel)"
      by (simp add: sorted_wrt_map case_prod_beta)
    then show "sorted_wrt (\<lambda>a b. timestamp (entry_log a) \<ge> timestamp (entry_log b)) entries"
      unfolding entries sel by (simp add: sorted_wrt_rev)
  }
  assume a: "once_error e = None \<and> (\<forall>n. parsed = Some n \<longrightarrow> 0 \<le> n)
          \<and> (\<forall>kv \<in> set (authentication_logs d). valid_date (timestamp (snd kv)))"
  then have "list_all (\<lambda>kv. valid_date (timestamp (snd kv)))
      (orderByChild_timestamp_limitToLast (nat ?limit) ?logs)"
    by (simp add: list_all_iff orderByChild_timestamp_limitToLast_def)
  with a show "\<exists>entries. dashboard_logs e parsed d = LogsOk entries"
    by (auto simp: dashboard_logs_def Let_def split: option.splits)
qed

section \<open>Identification\<close>

text \<open>
  C1. When the snapshot of active templates is not empty and every comparison answers with
  success and a confidence that is not negative, \<open>/api/authenticate\<close> posts one
  comparison for every active voter, in snapshot order, and decides on the maximum \<open>m\<close>
  of all their scores: if \<open>m\<close> reaches the threshold 0.85 it answers with the first voter
  in snapshot order whose score is \<open>m\<close> and with confidence \<open>m\<close>; otherwise it answers
  that authentication failed, with confidence \<open>m\<close>.
\<close>

theorem identify_global_maximum:
  fixes e :: env and req :: authentication_request and d :: db
  defines "act \<equiv> active_templates (voters d)"
  assumes valid: "authenticationSchema req = Inr faceData"
    and extracted: "extract_features e faceData = Inr fr" "extract_success fr"
    and db_ok: "once_error e = None" "push_error e = None"
    and nonempty: "act \<noteq> []"
    and scores: "\<forall>kv \<in> set act. oracle_ok (compare_faces e) (extract_faceEncoding fr) (snd kv)
                   \<and> 0 \<le> oracle_score (compare_faces e) (extract_faceEncoding fr) (snd kv)"
  defines "score \<equiv> \<lambda>kv. oracle_score (compare_faces e) (extract_faceEncoding fr) (snd kv)"
  defines "m \<equiv> Max (score ` set act)"
  shows "compare_posts (authenticate e req d) = map fst act
     \<and> (CONFIDENCE_THRESHOLD \<le> m \<longrightarrow>
          (\<exists>kv. find (\<lambda>kv. score kv = m) act = Some kv
             \<and> auth_response (authenticate e req d) =
                 AuthenticationSuccessful
                   \<lparr>view_id = voter_id (snd kv), view_name = name (snd kv),
                    view_email = email (snd kv)\<rparr> m))
     \<and> (m < CONFIDENCE_THRESHOLD \<longrightarrow>
          auth_response (authenticate e req d) = AuthenticationFailed m)"
proof -
  let ?cmp = "compare_faces e" and ?probe = "extract_faceEncoding fr"
  let ?S = "oracle_score ?cmp ?probe ` snd ` set act"
  have S: "?S = score ` set act" by (auto simp: score_def)
  have fin: "finite ?S" and ne: "?S \<noteq> {}" using nonempty by auto
  have "\<forall>x \<in> ?S. 0 \<le> x" using scores by auto
  then have m0: "0 \<le> Max ?S" using fin ne by (meson Max_in)
  have mx: "Max (insert 0 ?S) = m" using fin ne m0 unfolding m_def S by (simp add: max_def)
  have all_ok: "\<forall>kv \<in> set (active_templates (voters d)). oracle_ok ?cmp ?probe (snd kv)"
    using scores by (simp add: act_def)
  have loop: "compare_loop ?cmp ?probe (voters d) None 0 [] =
     (map fst act, Inr (if 0 < m then map_option snd (find (\<lambda>kv. score kv = m) act) else None, m))"
    using compare_loop_all_ok [OF all_ok, of None 0 "[]"] mx
    by (simp add: Let_def act_def [symmetric] score_def)
  have "m \<in> score ` set act" unfolding m_def using nonempty by (intro Max_in) auto
  then obtain kv where kv: "find (\<lambda>kv. score kv = m) act = Some kv"
    by (cases "find (\<lambda>kv. score kv = m) act") (auto simp: find_None_iff)
  have T: "0 < CONFIDENCE_THRESHOLD" by (simp add: CONFIDENCE_THRESHOLD_def)
  show ?thesis
    using valid extracted db_ok loop kv T
    by (auto simp: authenticate_def Let_def)
qed

theorem identify_global_maximum_witness:
  "compare_posts (authenticate example_env example_probe example_db) = [''a'', ''b'', ''c'']
   \<and> auth_response (authenticate example_env example_probe example_db) =
       AuthenticationSuccessful
         \<lparr>view_id = ''a'', view_name = ''a'', view_email = ''a@x.org''\<rparr> (92 / 100)
   \<and> auth_response (authenticate low_env example_probe example_db) =
       AuthenticationFailed (70 / 100)"
proof -
  let ?fr = "\<lparr>extract_success = True, extract_faceEncoding = [0], extract_error = []\<rparr>"
  have h1: "authenticationSchema example_probe = Inr ''image''"
    by (simp add: authenticationSchema_def example_probe_def)
  have h3: "extract_success ?fr" by simp
  have h5: "active_templates (voters example_db) \<noteq> []"
    by (simp add: example_defs)
  have h2: "extract_features example_env ''image'' = Inr ?fr"
    and h4: "once_error example_env = None" "push_error example_env = None"
    by (simp_all add: example_env_def)
  have h6: "\<forall>kv \<in> set (active_templates (voters example_db)).
      oracle_ok (compare_faces example_env) (extract_faceEncoding ?fr) (snd kv)
      \<and> 0 \<le> oracle_score (compare_faces example_env) (extract_faceEncoding ?fr) (snd kv)"
    by (simp add: example_defs)
  have l2: "extract_features low_env ''image'' = Inr ?fr"
    and l4: "once_error low_env = None" "push_error low_env = None"
    by (simp_all add: low_env_def example_env_def)
  have l6: "\<forall>kv \<in> set (active_templates (voters example_db)).
      oracle_ok (compare_faces low_env) (extract_faceEncoding ?fr) (snd kv)
      \<and> 0 \<le> oracle_score (compare_faces low_env) (extract_faceEncoding ?fr) (snd kv)"
    by (simp add: example_defs low_env_def low_compare_def)
  have T: "CONFIDENCE_THRESHOLD \<le> 92 / 100" "70 / 100 < CONFIDENCE_THRESHOLD"
    by (simp_all add: CONFIDENCE_THRESHOLD_def)
  from identify_global_maximum [OF h1 h2 h3 h4 h5 h6]
    identify_global_maximum [OF h1 l2 h3 l4 h5 l6] T
  show ?thesis
    by (simp add: example_defs low_env_def low_compare_def)
qed

text \<open>
  C6. When no voter is active, \<open>/api/authenticate\<close> posts no comparison at all, and a
  request that passes validation and extraction, with the database answering, is told that
  authentication failed with confidence 0.
\<close>

theorem identify_empty_population:
  assumes "active_templates (voters d) = []"
  shows "compare_posts (authenticate e req d) = []
     \<and> (\<forall>faceData fr.
          authenticationSchema req = Inr faceData \<and> extract_features e faceData = Inr fr
          \<and> extract_success fr \<and> once_error e = None \<and> push_error e = None
          \<longrightarrow> auth_response (authenticate e req d) = AuthenticationFailed 0)"
proof -
  have loop: "\<And>cmp probe. compare_loop cmp probe (voters d) None 0 [] = ([], Inr (None, 0))"
    using assms by (rule compare_loop_no_active)
  have T: "\<not> CONFIDENCE_THRESHOLD \<le> 0" by (simp add: CONFIDENCE_THRESHOLD_def)
  show ?thesis
    using loop T
    by (auto simp: authenticate_def Let_def split: sum.splits option.splits)
qed

theorem identify_empty_population_witness:
  "compare_posts (authenticate example_env example_probe revoked_db) = []
   \<and> auth_response (authenticate example_env example_probe revoked_db) = AuthenticationFailed 0"
proof -
  have h: "active_templates (voters revoked_db) = []"
    by (simp add: revoked_db_def example_defs)
  have g: "authenticationSchema example_probe = Inr ''image'' \<and>
      extract_features example_env ''image'' =
        Inr \<lparr>extract_success = True, extract_faceEncoding = [0], extract_error = []\<rparr>
      \<and> extract_success \<lparr>extract_success = True, extract_faceEncoding = [0], extract_error = []\<rparr>
      \<and> once_error example_env = None \<and> push_error example_env = None"
    by (simp add: authenticationSchema_def example_defs)
  from identify_empty_population [OF h, of example_env example_probe] g show ?thesis
    by blast
qed

text \<open>
  C2 as stated fails: with a best score of 0.70 the handler writes a record whose result is
  \<open>failed\<close> and whose \<open>voterId\<close> is the best candidate, not \<open>null\<close>.
\<close>

theorem attempt_invariant_counterexample:
  "authentication_logs (auth_db (authenticate low_env example_probe example_db)) =
     [(''-N1'', \<lparr>timestamp = 2000, voterId = Some ''a'', voterName = Some ''a'',
                 result = ''failed'', confidence = 70 / 100, ipAddress = ''::1''\<rparr>)]
   \<and> \<not> (CONFIDENCE_THRESHOLD \<le> 70 / 100)"
  by (simp add: authenticate_def authenticationSchema_def low_env_def low_compare_def
      example_defs CONFIDENCE_THRESHOLD_def db_set_def Let_def)

text \<open>
  C2, amended. Every record that \<open>/api/authenticate\<close> adds to
  \<open>authentication_logs\<close> has result \<open>success\<close> exactly when its confidence reaches the
  threshold and \<open>failed\<close> exactly when it does not; its \<open>voterId\<close> is set exactly when
  the confidence is above 0. The confidence is the maximum of 0 and the scores of the
  usable templates (the active voters whose comparison answered \<open>success\<close>) for the
  request's probe; when it is above 0, \<open>voterId\<close> and \<open>voterName\<close> are the id and name
  of the first usable template, in snapshot order, whose score is that maximum. So a
  successful record always names a voter, and a failed one names the best-scoring
  template whenever some usable comparison scored above 0.
\<close>

theorem attempt_record_consistency:
  assumes new: "(k, r) \<in> set (authentication_logs (auth_db (authenticate e req d)))"
    and old: "(k, r) \<notin> set (authentication_logs d)"
  shows "(result r = ''success'' \<longleftrightarrow> CONFIDENCE_THRESHOLD \<le> confidence r)
     \<and> (result r = ''failed'' \<longleftrightarrow> confidence r < CONFIDENCE_THRESHOLD)
     \<and> (voterId r \<noteq> None \<longleftrightarrow> 0 < confidence r)
     \<and> (result r = ''success'' \<longrightarrow> voterId r \<noteq> None)
     \<and> (\<exists>faceData (fr :: extract_response).
           authenticationSchema req = Inr faceData \<and> extract_features e faceData = Inr fr
           \<and> confidence r =
               Max (insert 0 (oracle_score (compare_faces e) (extract_faceEncoding fr) ` snd `
                      set (usable_templates (compare_faces e) (extract_faceEncoding fr) (voters d))))
           \<and> (0 < confidence r \<longrightarrow>
                 (\<exists>kv. find (\<lambda>kv. oracle_score (compare_faces e) (extract_faceEncoding fr) (snd kv)
                                   = confidence r)
                          (usable_templates (compare_faces e) (extract_faceEncoding fr) (voters d))
                        = Some kv
                    \<and> voterId r = Some (voter_id (snd kv))
                    \<and> voterName r = Some (name (snd kv)))))"
proof (cases e req d rule: authenticate_cases)
  case rejected
  with new old show ?thesis by simp
next
  case (logged faceData fr posted bm bc)
  let ?cmp = "compare_faces e" and ?probe = "extract_faceEncoding fr"
  let ?U = "usable_templates ?cmp ?probe (voters d)"
  let ?S = "oracle_score ?cmp ?probe ` snd ` set ?U"
  let ?m = "Max (insert 0 ?S)"
  from new old logged(7) have r: "r = attempt_record e bm bc"
    by (auto simp: set_db_set)
  from compare_loop_invariant [OF logged(6)] have inv: "0 \<le> bc" "bm \<noteq> None \<longleftrightarrow> 0 < bc"
    by simp_all
  have T: "0 < CONFIDENCE_THRESHOLD" by (simp add: CONFIDENCE_THRESHOLD_def)
  have basic: "(result r = ''success'' \<longleftrightarrow> CONFIDENCE_THRESHOLD \<le> confidence r)
     \<and> (result r = ''failed'' \<longleftrightarrow> confidence r < CONFIDENCE_THRESHOLD)
     \<and> (voterId r \<noteq> None \<longleftrightarrow> 0 < confidence r)
     \<and> (result r = ''success'' \<longrightarrow> voterId r \<noteq> None)"
    using inv T unfolding r attempt_record_def by auto
  have nt: "\<forall>kv \<in> set (active_templates (voters d)). \<not> oracle_throws ?cmp ?probe (snd kv)"
    using compare_loop_Inr_no_throw [OF logged(6)] .
  from compare_loop_no_throw [OF nt, of None 0 "[]"] logged(6)
  have bc: "bc = ?m"
    and bm: "bm = (if 0 < ?m then map_option snd
                     (find (\<lambda>kv. oracle_score ?cmp ?probe (snd kv) = ?m) ?U) else None)"
    by (simp_all add: Let_def)
  have conf: "confidence r = ?m" unfolding r attempt_record_def using bc by simp
  have best: "\<exists>kv. find (\<lambda>kv. oracle_score ?cmp ?probe (snd kv) = confidence r) ?U = Some kv
        \<and> voterId r = Some (voter_id (snd kv)) \<and> voterName r = Some (name (snd kv))"
    if pos: "0 < confidence r"
  proof -
    have "?m \<in> insert 0 ?S" by (intro Max_in) auto
    with pos conf have "?m \<in> ?S" by auto
    then obtain y where y: "y \<in> snd ` set ?U" and my: "?m = oracle_score ?cmp ?probe y"
      by (rule imageE)
    from y obtain x where x: "x \<in> set ?U" and yx: "y = snd x" by (rule imageE)
    from x my yx have "\<exists>x \<in> set ?U. oracle_score ?cmp ?probe (snd x) = ?m"
      by (intro bexI [of _ x]) simp_all
    then have "find (\<lambda>kv. oracle_score ?cmp ?probe (snd kv) = ?m) ?U \<noteq> None"
      unfolding find_None_iff by blast
    then obtain kv where kv: "find (\<lambda>kv. oracle_score ?cmp ?probe (snd kv) = ?m) ?U = Some kv"
      by blast
    with pos conf bm have "bm = Some (snd kv)" by simp
    then show ?thesis using kv conf unfolding r attempt_record_def by simp
  qed
  from basic conf best logged(1,2) show ?thesis by blast
qed

theorem attempt_record_consistency_witness:
  "(''-N1'', \<lparr>timestamp = 2000, voterId = Some ''a'', voterName = Some ''a'',
              result = ''failed'', confidence = 70 / 100, ipAddress = ''::1''\<rparr>)
      \<in> set (authentication_logs (auth_db (authenticate low_env example_probe example_db)))
   \<and> (70 / 100 :: real) < CONFIDENCE_THRESHOLD
   \<and> find (\<lambda>kv. oracle_score low_compare [0] (snd kv) = 70 / 100)
        (usable_templates low_compare [0] (voters example_db))
      = Some (''a'', example_voter ''a'' ''a@x.org'' [1] ''active'')
   \<and> (''-N1'', \<lparr>timestamp = 2000, voterId = Some ''a'', voterName = Some ''a'',
              result = ''success'', confidence = 92 / 100, ipAddress = ''::1''\<rparr>)
      \<in> set (authentication_logs (auth_db (authenticate example_env example_probe example_db)))
   \<and> CONFIDENCE_THRESHOLD \<le> (92 / 100 :: real)
   \<and> find (\<lambda>kv. oracle_score example_compare [0] (snd kv) = 92 / 100)
        (usable_templates example_compare [0] (voters example_db))
      = Some (''a'', example_voter ''a'' ''a@x.org'' [1] ''active'')"
proof -
  let ?r = "\<lparr>timestamp = 2000, voterId = Some ''a'', voterName = Some ''a'',
            result = ''failed'', confidence = 70 / 100, ipAddress = ''::1''\<rparr>"
  let ?s = "\<lparr>timestamp = 2000, voterId = Some ''a'', voterName = Some ''a'',
            result = ''success'', confidence = 92 / 100, ipAddress = ''::1''\<rparr>"
  let ?fr = "\<lparr>extract_success = True, extract_faceEncoding = [0], extract_error = []\<rparr>"
  have new: "(''-N1'', ?r) \<in>
      set (authentication_logs (auth_db (authenticate low_env example_probe example_db)))"
    by (simp add: authenticate_def authenticationSchema_def low_env_def low_compare_def
      example_defs CONFIDENCE_THRESHOLD_def db_set_def Let_def)
  have new': "(''-N1'', ?s) \<in>
      set (authentication_logs (auth_db (authenticate example_env example_probe example_db)))"
    by (simp add: authenticate_def authenticationSchema_def
      example_defs CONFIDENCE_THRESHOLD_def db_set_def Let_def)
  have old: "(''-N1'', ?r) \<notin> set (authentication_logs example_db)"
    and old': "(''-N1'', ?s) \<notin> set (authentication_logs example_db)"
    by (simp_all add: example_db_def)
  from attempt_record_consistency [OF new old]
  have a: "(70 / 100 :: real) < CONFIDENCE_THRESHOLD" by simp
  from attempt_record_consistency [OF new' old']
  have b: "CONFIDENCE_THRESHOLD \<le> (92 / 100 :: real)" by simp
  have f: "find (\<lambda>kv. oracle_score low_compare [0] (snd kv) = 70 / 100)
        (usable_templates low_compare [0] (voters example_db))
      = Some (''a'', example_voter ''a'' ''a@x.org'' [1] ''active'')"
    and f': "find (\<lambda>kv. oracle_score example_compare [0] (snd kv) = 92 / 100)
        (usable_templates example_compare [0] (voters example_db))
      = Some (''a'', example_voter ''a'' ''a@x.org'' [1] ''active'')"
    by (simp_all add: example_defs low_compare_def usable_templates_def)
  from new new' a b f f' show ?thesis by blast
qed

text \<open>
  C3 as stated fails: when the comparison for the second of three voters throws, the call
  fails although the first comparison had succeeded, and the third voter is never compared.
\<close>

theorem oracle_failure_counterexample:
  "auth_response (authenticate throwing_env example_probe example_db) = ServiceUnavailable
   \<and> compare_posts (authenticate throwing_env example_probe example_db) = [''a'', ''b'']
   \<and> auth_db (authenticate throwing_env example_probe example_db) = example_db"
  by (simp add: authenticate_def authenticationSchema_def failure_defs example_defs
      catch_error_def)

text \<open>
  C3, amended. For a request that passes validation and extraction with the voters read:
  (1) if the comparison request throws for an active voter, the scan stops there: no later
  voter is compared, the call fails with the status of the \<open>catch\<close> block (503 for
  \<open>ECONNREFUSED\<close>, 500 otherwise) and the database is unchanged, so no attempt is
  recorded; (2) if no comparison throws, every active voter is compared and the answer is
  the one the handler gives when the voters whose comparison did not answer \<open>success\<close>
  are left out; (3) if every comparison answers without \<open>success\<close>, the call completes
  as a failed authentication with confidence 0 and one attempt record is written.
\<close>

theorem oracle_failure_semantics:
  fixes e :: env and d :: db
  assumes valid: "authenticationSchema req = Inr faceData"
    and extracted: "extract_features e faceData = Inr fr" "extract_success fr"
    and db_ok: "once_error e = None"
  defines "cmp \<equiv> compare_faces e" and "probe \<equiv> extract_faceEncoding fr"
  shows "(\<forall>pre k v post err.
            voters d = pre @ (k, v) # post
            \<and> (\<forall>kv \<in> set (active_templates pre). \<not> oracle_throws cmp probe (snd kv))
            \<and> status v = ''active'' \<and> cmp probe (faceEncoding v) = Inl err
          \<longrightarrow> auth_response (authenticate e req d) = catch_error err
              \<and> auth_db (authenticate e req d) = d
              \<and> compare_posts (authenticate e req d) = map fst (active_templates pre) @ [k])
     \<and> ((\<forall>kv \<in> set (active_templates (voters d)). \<not> oracle_throws cmp probe (snd kv))
          \<longrightarrow> compare_posts (authenticate e req d) = map fst (active_templates (voters d))
              \<and> auth_response (authenticate e req d) =
                  auth_response (authenticate e req
                                   (d\<lparr>voters := usable_templates cmp probe (voters d)\<rparr>)))
     \<and> ((\<forall>kv \<in> set (active_templates (voters d)).
             \<not> oracle_throws cmp probe (snd kv) \<and> \<not> oracle_ok cmp probe (snd kv))
          \<and> push_error e = None
          \<longrightarrow> auth_response (authenticate e req d) = AuthenticationFailed 0
              \<and> authentication_logs (auth_db (authenticate e req d)) =
                  db_set (push_key e) (attempt_record e None 0) (authentication_logs d))"
proof (intro conjI allI impI)
  fix pre k v post err
  assume a: "voters d = pre @ (k, v) # post
            \<and> (\<forall>kv \<in> set (active_templates pre). \<not> oracle_throws cmp probe (snd kv))
            \<and> status v = ''active'' \<and> cmp probe (faceEncoding v) = Inl err"
  then have "compare_loop cmp probe (voters d) None 0 [] =
      ([] @ map fst (active_templates pre) @ [k], Inl err)"
    using compare_loop_throw [of pre cmp probe v err k post None 0 "[]"] by simp
  then have out: "authenticate e req d =
      \<lparr>auth_response = catch_error err, auth_db = d,
       compare_posts = map fst (active_templates pre) @ [k]\<rparr>"
    using authenticate_after_loop [OF valid extracted db_ok, of d]
    by (simp add: cmp_def probe_def)
  show "auth_response (authenticate e req d) = catch_error err"
    and "auth_db (authenticate e req d) = d"
    and "compare_posts (authenticate e req d) = map fst (active_templates pre) @ [k]"
    by (simp_all add: out)
next
  assume a: "\<forall>kv \<in> set (active_templates (voters d)). \<not> oracle_throws cmp probe (snd kv)"
  let ?U = "usable_templates cmp probe (voters d)"
  have nt: "\<forall>kv \<in> set (active_templates ?U). \<not> oracle_throws cmp probe (snd kv)"
    using usable_no_throw [of cmp probe "voters d"] by simp
  have l1: "compare_loop cmp probe (voters d) None 0 [] =
      (map fst (active_templates (voters d)),
       snd (compare_loop cmp probe ?U None 0 []))"
    using compare_loop_no_throw [OF a, of None 0 "[]"]
      compare_loop_no_throw [OF nt, of None 0 "[]"]
    by simp
  show "compare_posts (authenticate e req d) = map fst (active_templates (voters d))"
    using authenticate_after_loop [OF valid extracted db_ok, of d] l1
    by (simp add: cmp_def probe_def split: sum.splits option.splits prod.splits)
  show "auth_response (authenticate e req d) =
      auth_response (authenticate e req (d\<lparr>voters := ?U\<rparr>))"
    using authenticate_after_loop [OF valid extracted db_ok, of d]
      authenticate_after_loop [OF valid extracted db_ok, of "d\<lparr>voters := ?U\<rparr>"] l1
    by (auto simp: cmp_def probe_def split: sum.splits option.splits prod.splits)
next
  assume a: "(\<forall>kv \<in> set (active_templates (voters d)).
             \<not> oracle_throws cmp probe (snd kv) \<and> \<not> oracle_ok cmp probe (snd kv))
          \<and> push_error e = None"
  then have nt: "\<forall>kv \<in> set (active_templates (voters d)). \<not> oracle_throws cmp probe (snd kv)"
    by simp
  from a have U: "usable_templates cmp probe (voters d) = []"
    by (simp add: usable_templates_def)
  have l: "compare_loop cmp probe (voters d) None 0 [] =
      (map fst (active_templates (voters d)), Inr (None, 0))"
    using compare_loop_no_throw [OF nt, of None 0 "[]"] U by simp
  have T: "\<not> CONFIDENCE_THRESHOLD \<le> 0" by (simp add: CONFIDENCE_THRESHOLD_def)
  have out: "authenticate e req d =
      \<lparr>auth_response = AuthenticationFailed 0,
       auth_db = d\<lparr>authentication_logs :=
                 db_set (push_key e) (attempt_record e None 0) (authentication_logs d)\<rparr>,
       compare_posts = map fst (active_templates (voters d))\<rparr>"
    using authenticate_after_loop [OF valid extracted db_ok, of d] l a T
    by (simp add: cmp_def probe_def)
  show "auth_response (authenticate e req d) = AuthenticationFailed 0"
    and "authentication_logs (auth_db (authenticate e req d)) =
      db_set (push_key e) (attempt_record e None 0) (authentication_logs d)"
    by (simp_all add: out)
qed

theorem oracle_failure_semantics_witness:
  "(auth_response (authenticate throwing_env example_probe example_db) = ServiceUnavailable
     \<and> auth_db (authenticate throwing_env example_probe example_db) = example_db
     \<and> compare_posts (authenticate throwing_env example_probe example_db) = [''a'', ''b''])
   \<and> (compare_posts (authenticate partial_env example_probe example_db) = [''a'', ''b'', ''c'']
     \<and> auth_response (authenticate partial_env example_probe example_db) =
        auth_response (authenticate partial_env example_probe
          (example_db\<lparr>voters := [(''b'', example_voter ''b'' ''b@x.org'' [2] ''active''),
                                   (''c'', example_voter ''c'' ''c@x.org'' [3] ''active'')]\<rparr>)))
   \<and> (auth_response (authenticate unsuccessful_env example_probe example_db) =
         AuthenticationFailed 0
     \<and> authentication_logs (auth_db (authenticate unsuccessful_env example_probe example_db)) =
         [(''-N1'', \<lparr>timestamp = 2000, voterId = None, voterName = None,
                     result = ''failed'', confidence = 0, ipAddress = ''::1''\<rparr>)])"
proof -
  let ?fr = "\<lparr>extract_success = True, extract_faceEncoding = [0], extract_error = []\<rparr>"
  have valid: "authenticationSchema example_probe = Inr ''image''"
    by (simp add: authenticationSchema_def example_probe_def)
  have s: "extract_success ?fr" by simp
  have x1: "extract_features throwing_env ''image'' = Inr ?fr"
    and o1: "once_error throwing_env = None"
    by (simp_all add: throwing_env_def example_env_def)
  have x2: "extract_features partial_env ''image'' = Inr ?fr"
    and o2: "once_error partial_env = None"
    by (simp_all add: partial_env_def example_env_def)
  have x3: "extract_features unsuccessful_env ''image'' = Inr ?fr"
    and o3: "once_error unsuccessful_env = None"
    by (simp_all add: unsuccessful_env_def example_env_def)
  have p1: "voters example_db =
        [(''a'', example_voter ''a'' ''a@x.org'' [1] ''active'')]
        @ (''b'', example_voter ''b'' ''b@x.org'' [2] ''active'')
        # [(''c'', example_voter ''c'' ''c@x.org'' [3] ''active'')]
      \<and> (\<forall>kv \<in> set (active_templates [(''a'', example_voter ''a'' ''a@x.org'' [1] ''active'')]).
            \<not> oracle_throws (compare_faces throwing_env) (extract_faceEncoding ?fr) (snd kv))
      \<and> status (example_voter ''b'' ''b@x.org'' [2] ''active'') = ''active''
      \<and> compare_faces throwing_env (extract_faceEncoding ?fr)
           (faceEncoding (example_voter ''b'' ''b@x.org'' [2] ''active''))
         = Inl (JsError (Some ''ECONNREFUSED''))"
    by (simp add: failure_defs example_defs)
  have p2: "\<forall>kv \<in> set (active_templates (voters example_db)).
       \<not> oracle_throws (compare_faces partial_env) (extract_faceEncoding ?fr) (snd kv)"
    by (simp add: failure_defs example_defs)
  have p3: "(\<forall>kv \<in> set (active_templates (voters example_db)).
       \<not> oracle_throws (compare_faces unsuccessful_env) (extract_faceEncoding ?fr) (snd kv)
       \<and> \<not> oracle_ok (compare_faces unsuccessful_env) (extract_faceEncoding ?fr) (snd kv))
      \<and> push_error unsuccessful_env = None"
    by (simp add: failure_defs example_defs)
  have u: "usable_templates (compare_faces partial_env) (extract_faceEncoding ?fr)
        (voters example_db) =
      [(''b'', example_voter ''b'' ''b@x.org'' [2] ''active''),
       (''c'', example_voter ''c'' ''c@x.org'' [3] ''active'')]"
    by (simp add: failure_defs example_defs)
  note T1 = oracle_failure_semantics [OF valid x1 s o1, of example_db, THEN conjunct1]
  note t1 = T1 [THEN spec, THEN spec, THEN spec, THEN spec, THEN spec, THEN mp, OF p1]
  note t2 = oracle_failure_semantics [OF valid x2 s o2, of example_db,
      THEN conjunct2, THEN conjunct1, THEN mp, OF p2]
  note t3 = oracle_failure_semantics [OF valid x3 s o3, of example_db,
      THEN conjunct2, THEN conjunct2, THEN mp, OF p3]
  show ?thesis
    using t1 t2 t3 unfolding u
    by (simp add: catch_error_def active_templates_def example_db_def example_voter_def
        db_set_def attempt_record_def CONFIDENCE_THRESHOLD_def unsuccessful_env_def
        example_env_def)
qed

section \<open>Registration and the audit log\<close>

text \<open>
  C4 as stated fails: when the push to \<open>registration_logs\<close> rejects, the caller of
  \<open>/api/register\<close> gets status 500 although the voter has been stored.
\<close>

theorem audit_failure_counterexample:
  "register push_failing_env example_registration empty_db =
     (InternalServerError,
      \<lparr>voters = [(''d'', \<lparr>voter_id = ''d'', name = ''Dana'', email = ''d@x.org'',
                           registrationDate = ''2024-01-20T10:30:00.000Z'',
                           faceEncoding = [0], status = ''active'', createdAt = 2000\<rparr>)],
       registration_logs = [], authentication_logs = []\<rparr>)"
  by (simp add: register_defs push_failing_env_def example_env_def example_registration_def
      empty_db_def db_set_def)

text \<open>
  C4, amended. A rejected push to the audit log fails the caller's operation: where the
  handler would otherwise have answered with its primary result, it answers with the status
  of its \<open>catch\<close> block (503 for \<open>ECONNREFUSED\<close>, 500 otherwise). For
  \<open>/api/register\<close> the voter written before the push stays in the store and nothing
  else changes; for \<open>/api/authenticate\<close> the database is unchanged.
\<close>

theorem audit_append_failure:
  assumes "push_error e = Some err"
  shows "(\<forall>vid d'. register (e\<lparr>push_error := None\<rparr>) req d = (VoterRegistered vid, d')
            \<longrightarrow> register e req d = (catch_error err, d\<lparr>voters := voters d'\<rparr>))
     \<and> (http_status (auth_response (authenticate (e\<lparr>push_error := None\<rparr>) areq d)) \<in> {200, 401}
            \<longrightarrow> auth_response (authenticate e areq d) = catch_error err
                \<and> auth_db (authenticate e areq d) = d)"
proof (intro conjI allI impI)
  fix vid d'
  assume "register (e\<lparr>push_error := None\<rparr>) req d = (VoterRegistered vid, d')"
  then show "register e req d = (catch_error err, d\<lparr>voters := voters d'\<rparr>)"
    using assms
    by (auto simp: register_def register_lookup_def register_extract_def
        register_save_def register_log_def catch_error_def
        split: sum.splits option.splits if_splits)
next
  assume a: "http_status (auth_response (authenticate (e\<lparr>push_error := None\<rparr>) areq d)) \<in> {200, 401}"
  then show "auth_response (authenticate e areq d) = catch_error err"
    using assms
    by (auto simp: authenticate_def Let_def catch_error_def
        split: sum.splits option.splits if_splits prod.splits)
  from a show "auth_db (authenticate e areq d) = d"
    using assms
    by (auto simp: authenticate_def Let_def catch_error_def
        split: sum.splits option.splits if_splits prod.splits)
qed

theorem audit_append_failure_witness:
  "register push_failing_env example_registration empty_db =
     (InternalServerError,
      empty_db\<lparr>voters := [(''d'', \<lparr>voter_id = ''d'', name = ''Dana'', email = ''d@x.org'',
                           registrationDate = ''2024-01-20T10:30:00.000Z'',
                           faceEncoding = [0], status = ''active'', createdAt = 2000\<rparr>)]\<rparr>)
   \<and> auth_response (authenticate push_failing_env example_probe example_db) = InternalServerError
   \<and> auth_db (authenticate push_failing_env example_probe example_db) = example_db"
proof -
  have h: "push_error push_failing_env = Some (JsError None)"
    by (simp add: push_failing_env_def)
  have e: "push_failing_env\<lparr>push_error := None\<rparr> = example_env"
    by (simp add: push_failing_env_def example_env_def)
  have r: "register (push_failing_env\<lparr>push_error := None\<rparr>) example_registration empty_db =
      (VoterRegistered ''d'',
       \<lparr>voters = [(''d'', \<lparr>voter_id = ''d'', name = ''Dana'', email = ''d@x.org'',
                           registrationDate = ''2024-01-20T10:30:00.000Z'',
                           faceEncoding = [0], status = ''active'', createdAt = 2000\<rparr>)],
        registration_logs = [(''-N1'', \<lparr>reg_voterId = ''d'', reg_voterName = ''Dana'',
                                reg_timestamp = 2000, action = ''registered''\<rparr>)],
        authentication_logs = []\<rparr>)"
    unfolding e
    by (simp add: register_defs example_env_def example_registration_def empty_db_def db_set_def)
  have a: "http_status (auth_response
        (authenticate (push_failing_env\<lparr>push_error := None\<rparr>) example_probe example_db))
      \<in> {200, 401}"
    unfolding e
    by (simp add: authenticate_def authenticationSchema_def example_defs
        CONFIDENCE_THRESHOLD_def Let_def)
  note t1 = audit_append_failure [OF h, of example_registration empty_db]
  note t2 = audit_append_failure [OF h, of _ example_db example_probe]
  from t1 [THEN conjunct1, THEN spec, THEN spec, THEN mp, OF r] t2 [THEN conjunct2, THEN mp, OF a]
  show ?thesis by (simp add: catch_error_def)
qed

text \<open>
  C5. A registration whose e-mail is already the e-mail of a stored voter, whatever the
  voter's status, leaves the database as it was (no voter and no registration log is
  added); once the request has passed validation and the lookup has been answered, the
  response is the conflict 409.
\<close>

theorem register_duplicate_contact:
  assumes "req_email req = Some m" and "\<exists>kv \<in> set (voters d). email (snd kv) = m"
  shows "snd (register e req d) = d
     \<and> (\<forall>v. voterRegistrationSchema e req = Inr v \<and> once_error e = None
          \<longrightarrow> fst (register e req d) = EmailAlreadyRegistered
              \<and> http_status (fst (register e req d)) = 409)"
proof -
  have ex: "filter (\<lambda>kv. email (snd kv) = m) (voters d) \<noteq> []"
    using assms(2) by (simp add: filter_empty_conv)
  have em: "\<And>v. voterRegistrationSchema e req = Inr v \<Longrightarrow> val_email v = m"
    using assms(1)
    by (auto simp: voterRegistrationSchema_def split: option.splits if_splits)
  have lk: "\<exists>r. register_lookup e req d = Inl r
      \<and> (\<forall>v. voterRegistrationSchema e req = Inr v \<and> once_error e = None
            \<longrightarrow> r = EmailAlreadyRegistered)"
    using ex em by (auto simp: register_lookup_def split: sum.splits option.splits)
  then show ?thesis by (auto simp: register_def)
qed

theorem register_duplicate_contact_witness:
  "register example_env revoked_registration revoked_db = (EmailAlreadyRegistered, revoked_db)
   \<and> http_status (fst (register example_env revoked_registration revoked_db)) = 409"
proof -
  have h1: "req_email revoked_registration = Some ''a@x.org''"
    by (simp add: revoked_registration_def)
  have h2: "\<exists>kv \<in> set (voters revoked_db). email (snd kv) = ''a@x.org''"
    by (simp add: revoked_db_def example_voter_def)
  have h3: "voterRegistrationSchema example_env revoked_registration =
      Inr \<lparr>val_name = ''Alex'', val_email = ''a@x.org'', val_faceData = ''image''\<rparr>
      \<and> once_error example_env = None"
    by (simp add: voterRegistrationSchema_def revoked_registration_def example_env_def)
  note t = register_duplicate_contact [OF h1 h2, of example_env]
  from t [THEN conjunct1] t [THEN conjunct2, THEN spec, THEN mp, OF h3]
  show ?thesis by (cases "register example_env revoked_registration revoked_db") simp
qed

text \<open>
  C10. Two registrations with the same e-mail, served one after the other, end with one
  voter and a conflict for the second. When the second lookup runs before the first
  request has written its voter, both lookups find no such e-mail, both requests are
  answered 201 and the store holds two voters with the same e-mail.
\<close>

theorem concurrent_register_duplicates:
  "interleave example_env second_env [True, True, True, True, False, False, False, False]
     (AtLookup example_registration, AtLookup example_registration, empty_db) =
     (Responded (VoterRegistered ''d''), Responded EmailAlreadyRegistered,
      \<lparr>voters = [(''d'', \<lparr>voter_id = ''d'', name = ''Dana'', email = ''d@x.org'',
                           registrationDate = ''2024-01-20T10:30:00.000Z'',
                           faceEncoding = [0], status = ''active'', createdAt = 2000\<rparr>)],
       registration_logs = [(''-N1'', \<lparr>reg_voterId = ''d'', reg_voterName = ''Dana'',
                                reg_timestamp = 2000, action = ''registered''\<rparr>)],
       authentication_logs = []\<rparr>)
   \<and> interleave example_env second_env [True, False, True, False, True, False, True, False]
     (AtLookup example_registration, AtLookup example_registration, empty_db) =
     (Responded (VoterRegistered ''d''), Responded (VoterRegistered ''e''),
      \<lparr>voters = [(''d'', \<lparr>voter_id = ''d'', name = ''Dana'', email = ''d@x.org'',
                           registrationDate = ''2024-01-20T10:30:00.000Z'',
                           faceEncoding = [0], status = ''active'', createdAt = 2000\<rparr>),
                 (''e'', \<lparr>voter_id = ''e'', name = ''Dana'', email = ''d@x.org'',
                           registrationDate = ''2024-01-20T10:30:00.000Z'',
                           faceEncoding = [0], status = ''active'', createdAt = 2000\<rparr>)],
       registration_logs = [(''-N1'', \<lparr>reg_voterId = ''d'', reg_voterName = ''Dana'',
                                reg_timestamp = 2000, action = ''registered''\<rparr>),
                            (''-N2'', \<lparr>reg_voterId = ''e'', reg_voterName = ''Dana'',
                                reg_timestamp = 2000, action = ''registered''\<rparr>)],
       authentication_logs = []\<rparr>)"
  by (simp add: register_lookup_def register_extract_def register_save_def register_log_def
      voterRegistrationSchema_def second_env_def example_env_def example_registration_def
      empty_db_def db_set_def)

section \<open>Revocation\<close>

text \<open>
  C9. Revoking a voter leaves \<open>authentication_logs\<close> as it was. After any sequence of
  later registrations (with generated ids other than the revoked key), authentications and
  revocations, the revoked key is not among the active templates, and no authentication
  posts a comparison for it.
\<close>

theorem revoke_removes_from_snapshots:
  assumes "revoke k d = Inr d1"
    and "\<forall>op \<in> set ops. \<forall>e req. op = Register e req \<longrightarrow> uuidv4 e \<noteq> k"
  shows "authentication_logs d1 = authentication_logs d
     \<and> k \<notin> fst ` set (active_templates (voters (run ops d1)))
     \<and> k \<notin> set (compare_posts (authenticate e areq (run ops d1)))"
proof -
  have logs: "authentication_logs d1 = authentication_logs d"
    using assms(1) by (auto simp: revoke_def split: if_splits)
  have "never_active k (voters (run ops d1))"
    using never_active_run [OF revoke_never_active [OF assms(1)] assms(2)] .
  then have na: "k \<notin> fst ` set (active_templates (voters (run ops d1)))"
    by (simp add: never_active_def)
  with authenticate_posts [of e areq "run ops d1"] logs show ?thesis by blast
qed

theorem revoke_removes_from_snapshots_witness:
  "revoke ''a'' example_db = Inr example_revoked
   \<and> authentication_logs example_revoked = authentication_logs example_db
   \<and> ''a'' \<notin> set (compare_posts (authenticate example_env example_probe
        (run [Register example_env example_registration,
              Authenticate example_env example_probe] example_revoked)))"
proof -
  have h1: "revoke ''a'' example_db = Inr example_revoked"
    by (simp add: revoke_def example_db_def example_revoked_def example_voter_def)
  have h2: "\<forall>op \<in> set [Register example_env example_registration,
                          Authenticate example_env example_probe].
      \<forall>e req. op = Register e req \<longrightarrow> uuidv4 e \<noteq> ''a''"
    by (simp add: example_env_def)
  from revoke_removes_from_snapshots [OF h1 h2, of example_env example_probe] h1
  show ?thesis by simp
qed

section \<open>Dashboard\<close>

text \<open>
  C7. The handler counts only inside the last 100 attempts and only timestamps strictly
  after the start of the day: with 101 successful attempts today it reports 100, and an
  attempt stamped exactly at the start of the day is not counted.
\<close>

theorem successes_today_undercount:
  "dashboard_stats example_env busy_db =
     StatsOk \<lparr>totalRegistered = 0, activeVoters = 0, successfulAuthsToday = 100,
              systemAccuracy = 100\<rparr>
   \<and> successes_since (todayTimestamp example_env) (authentication_logs busy_db) = 101
   \<and> dashboard_stats example_env midnight_db =
     StatsOk \<lparr>totalRegistered = 0, activeVoters = 0, successfulAuthsToday = 0,
              systemAccuracy = 100\<rparr>
   \<and> successes_since (todayTimestamp example_env) (authentication_logs midnight_db) = 1"
proof -
  let ?logs = "map (\<lambda>i. (replicate i CHR ''k'', success_log 2000)) [1..<102]"
  have m: "map snd (limitToLast 100 ?logs) = replicate 100 (success_log 2000)"
    by (simp only: constant_logs length_upt) simp
  have a: "dashboard_stats example_env busy_db =
     StatsOk \<lparr>totalRegistered = 0, activeVoters = 0, successfulAuthsToday = 100,
              systemAccuracy = 100\<rparr>"
    unfolding dashboard_stats_def busy_db_def db.simps m
    by (simp add: example_env_def success_log_def)
  have f: "filter (\<lambda>kv. result (snd kv) = ''success'' \<and> 1500 \<le> timestamp (snd kv)) ?logs = ?logs"
    by (rule filter_True_if_all) (simp add: success_log_def del: upt_rec_numeral)
  have b: "successes_since (todayTimestamp example_env) (authentication_logs busy_db) = 101"
    unfolding successes_since_def busy_db_def db.simps
    by (simp only: example_env_def env.simps f length_map length_upt)
  have c: "dashboard_stats example_env midnight_db =
     StatsOk \<lparr>totalRegistered = 0, activeVoters = 0, successfulAuthsToday = 0,
              systemAccuracy = 100\<rparr>"
    by (simp add: dashboard_stats_def limitToLast_def midnight_db_def example_env_def
        success_log_def)
  have d: "successes_since (todayTimestamp example_env) (authentication_logs midnight_db) = 1"
    by (simp add: successes_since_def midnight_db_def example_env_def success_log_def)
  from a b c d show ?thesis by blast
qed

text \<open>
  C8. The handler selects the most recent attempts by timestamp but lists them in the
  reverse of their key order: for a log whose later key carries the earlier timestamp, the
  attempt stamped 2000 is returned before the attempt stamped 3000, so the list is not in
  descending order of timestamp.
\<close>

theorem recent_attempts_not_descending:
  "dashboard_logs example_env (Some 10) unordered_db =
     LogsOk [\<lparr>entry_id = ''-N1'', entry_log = success_log 2000, entry_timestamp = []\<rparr>,
             \<lparr>entry_id = ''-N0'', entry_log = success_log 3000, entry_timestamp = []\<rparr>]
   \<and> timestamp (success_log 2000) < timestamp (success_log 3000)
   \<and> \<not> sorted_wrt (\<lambda>a b. timestamp (entry_log a) \<ge> timestamp (entry_log b))
            [\<lparr>entry_id = ''-N1'', entry_log = success_log 2000, entry_timestamp = []\<rparr>,
             \<lparr>entry_id = ''-N0'', entry_log = success_log 3000, entry_timestamp = []\<rparr>]"
  by (simp add: dashboard_logs_def orderByChild_timestamp_limitToLast_def limitToLast_def
      unordered_db_def example_env_def success_log_def valid_date_def Let_def)

end
